(* ===== verification/Prelude.thy ===== *)
theory Prelude
  imports Complex_Main "HOL-Library.Word" "HOL-Library.Char_ord"
begin

text \<open>
  Shared vocabulary of the development: the names of Rust's machine types, results and their
  errors, decimal printing and parsing of integers (Rust's \<open>to_string\<close> and
  \<open>str::parse\<close>), \<open>slice::chunks\<close>, and generic list lemmas. A Rust \<open>String\<close> is
  the list of its UTF-8 code units (a \<open>char\<close> of HOL is one byte), so that \<open>length\<close> is
  Rust's \<open>len\<close>.
\<close>

named_theorems text_simps \<open>decimal text, keys and other strings\<close>
named_theorems wire_simps \<open>byte encodings\<close>
named_theorems exact_simps \<open>exact arithmetic on finite values\<close>

section \<open>Machine types and results\<close>

type_synonym u8 = "8 word"
type_synonym bytes = "u8 list"
type_synonym 'a result = "string + 'a"

abbreviation Ok :: "'a \<Rightarrow> 'e + 'a" where
  "Ok \<equiv> Inr"

abbreviation Err :: "'e \<Rightarrow> 'e + 'a" where
  "Err \<equiv> Inl"

definition usize_mod :: nat where
  "usize_mod = 2 ^ 64"

text \<open>\<open>as_bytes\<close>: the code units of a string as bytes, and back.\<close>

definition as_bytes :: "string \<Rightarrow> bytes" where
  "as_bytes s = map (\<lambda>c. of_nat (of_char c)) s"

definition of_bytes :: "bytes \<Rightarrow> string" where
  "of_bytes bs = map (\<lambda>b. char_of (unat b)) bs"

lemma of_bytes_as_bytes [simp]: "of_bytes (as_bytes s) = s"
proof -
  have "unat (of_nat (of_char c) :: u8) = of_char c" for c
    by (simp add: unat_of_nat)
  then show ?thesis by (simp add: of_bytes_def as_bytes_def comp_def)
qed

section \<open>Decimal text\<close>

text \<open>Rust's \<open>to_string\<close> of an unsigned integer.\<close>

definition digit_char :: "nat \<Rightarrow> char" where
  "digit_char d = char_of (48 + d)"

fun dec :: "nat \<Rightarrow> string" where
  "dec n = (if n < 10 then [digit_char n] else dec (n div 10) @ [digit_char (n mod 10)])"

declare dec.simps [simp del]

text \<open>
  Rust's \<open>parse\<close> to an unsigned integer type whose values are below \<open>bound\<close>: one
  optional leading plus sign, at least one digit, digits only, no overflow.
\<close>

definition is_digit :: "char \<Rightarrow> bool" where
  "is_digit c \<longleftrightarrow> 48 \<le> (of_char c :: nat) \<and> (of_char c :: nat) \<le> 57"

definition digit_val :: "char \<Rightarrow> nat" where
  "digit_val c = of_char c - 48"

definition digits_val :: "string \<Rightarrow> nat" where
  "digits_val s = foldl (\<lambda>acc c. 10 * acc + digit_val c) 0 s"

definition parse_digits :: "nat \<Rightarrow> string \<Rightarrow> nat option" where
  "parse_digits bound s =
     (if s \<noteq> [] \<and> list_all is_digit s \<and> digits_val s < bound then Some (digits_val s) else None)"

definition parse_uint :: "nat \<Rightarrow> string \<Rightarrow> nat option" where
  "parse_uint bound s =
     (case s of [] \<Rightarrow> None
      | c # cs \<Rightarrow> if c = CHR ''+'' then parse_digits bound cs else parse_digits bound s)"

text \<open>\<open>parse::<i32>\<close>: an optional sign of either kind.\<close>

definition parse_i32 :: "string \<Rightarrow> int option" where
  "parse_i32 s =
     (case s of [] \<Rightarrow> None
      | c # cs \<Rightarrow>
          if c = CHR ''-'' then map_option (\<lambda>n. - int n) (parse_digits (2 ^ 31 + 1) cs)
          else map_option int (parse_uint (2 ^ 31) s))"

text \<open>Rust's \<open>to_string\<close> of a signed integer.\<close>

definition dec_int :: "int \<Rightarrow> string" where
  "dec_int i = (if i < 0 then CHR ''-'' # dec (nat (- i)) else dec (nat i))"

lemma of_char_digit_char:
  "d < 10 \<Longrightarrow> (of_char (digit_char d) :: nat) = 48 + d"
  by (simp add: digit_char_def)

lemma is_digit_digit_char [text_simps]: "d < 10 \<Longrightarrow> is_digit (digit_char d)"
  by (simp add: is_digit_def of_char_digit_char)

lemma digit_val_digit_char [text_simps]: "d < 10 \<Longrightarrow> digit_val (digit_char d) = d"
  by (simp add: digit_val_def of_char_digit_char)

lemma is_digit_not_sep [text_simps]:
  "\<not> is_digit (CHR '':'')" "\<not> is_digit (CHR ''+'')" "\<not> is_digit (CHR ''-'')"
  by (simp_all add: is_digit_def)

lemma dec_neq_Nil [simp]: "dec n \<noteq> []"
  by (subst dec.simps) simp

lemma dec_digits: "list_all is_digit (dec n)"
proof (induction n rule: dec.induct)
  case (1 n)
  then show ?case
    by (subst dec.simps) (simp add: is_digit_digit_char)
qed

lemma digits_val_snoc: "digits_val (s @ [c]) = 10 * digits_val s + digit_val c"
  by (simp add: digits_val_def)

lemma digits_val_dec [simp]: "digits_val (dec n) = n"
proof (induction n rule: dec.induct)
  case (1 n)
  show ?case
  proof (cases "n < 10")
    case True
    then show ?thesis
      by (subst dec.simps) (simp add: digits_val_def digit_val_digit_char)
  next
    case False
    with 1 show ?thesis
      by (subst dec.simps) (simp add: digits_val_snoc digit_val_digit_char)
  qed
qed

lemma dec_inject [simp]: "dec m = dec n \<longleftrightarrow> m = n"
  by (metis digits_val_dec)

lemma parse_digits_dec: "parse_digits b (dec n) = (if n < b then Some n else None)"
  by (simp add: parse_digits_def dec_digits)

text \<open>Printing then parsing an unsigned integer gives it back, exactly when it fits.\<close>

lemma parse_uint_dec [simp]: "parse_uint b (dec n) = (if n < b then Some n else None)"
proof (cases "dec n")
  case Nil
  then show ?thesis by simp
next
  case (Cons c cs)
  with dec_digits [of n] have "is_digit c" by simp
  then have "c \<noteq> CHR ''+''" by (auto simp: text_simps)
  with Cons have "parse_uint b (dec n) = parse_digits b (dec n)"
    by (simp add: parse_uint_def)
  then show ?thesis by (simp add: parse_digits_dec)
qed

lemma parse_i32_dec [simp]: "n < 2 ^ 31 \<Longrightarrow> parse_i32 (dec n) = Some (int n)"
proof (cases "dec n")
  case (Cons c cs)
  assume n: "n < 2 ^ 31"
  have "is_digit c" using Cons dec_digits [of n] by simp
  then have "c \<noteq> CHR ''-''" by (auto simp: is_digit_def)
  then have "parse_i32 (dec n) = map_option int (parse_uint (2 ^ 31) (dec n))"
    by (simp add: parse_i32_def Cons)
  with n show ?thesis by simp
qed simp

lemma parse_uint_bound: "parse_uint b s = Some n \<Longrightarrow> n < b"
  by (auto simp: parse_uint_def parse_digits_def split: list.splits if_splits)

lemma colon_notin_dec [simp]: "CHR '':'' \<notin> set (dec n)"
  using dec_digits [of n] by (auto simp: list_all_iff text_simps)

section \<open>Chunks of a slice\<close>

text \<open>
  \<open>slice::chunks(n)\<close>: consecutive pieces of length \<open>n\<close>, the last one possibly shorter.
  The library function panics for \<open>n = 0\<close>, which the callers model; here it is the empty
  list of chunks.
\<close>

function chunks :: "nat \<Rightarrow> 'a list \<Rightarrow> 'a list list" where
  "chunks n xs = (if n = 0 \<or> xs = [] then [] else take n xs # chunks n (drop n xs))"
  by pat_completeness auto
termination
  by (relation "measure (\<lambda>(n, xs). length xs)") auto

declare chunks.simps [simp del]

lemma chunks_Nil [simp]: "chunks n [] = []"
  by (simp add: chunks.simps)

lemma chunks_step: "0 < n \<Longrightarrow> xs \<noteq> [] \<Longrightarrow> chunks n xs = take n xs # chunks n (drop n xs)"
  by (subst chunks.simps) simp

lemma concat_chunks [simp]: "0 < n \<Longrightarrow> concat (chunks n xs) = xs"
proof (induction n xs rule: chunks.induct)
  case (1 n xs)
  then show ?case
    by (cases "xs = []") (simp_all add: chunks_step)
qed

lemma chunks_bounds: "c \<in> set (chunks n xs) \<Longrightarrow> c \<noteq> [] \<and> length c \<le> n"
proof (induction n xs rule: chunks.induct)
  case (1 n xs)
  then show ?case
    by (cases "n = 0 \<or> xs = []") (auto simp: chunks_step chunks.simps [of 0])
qed

lemma length_chunks: "0 < n \<Longrightarrow> length (chunks n xs) = (length xs + n - 1) div n"
proof (induction n xs rule: chunks.induct)
  case (1 n xs)
  show ?case
  proof (cases "xs = []")
    case True
    with 1 show ?thesis by simp
  next
    case False
    with 1 have IH: "length (chunks n (drop n xs)) = (length xs - n + n - 1) div n"
      by simp
    show ?thesis
    proof (cases "n \<le> length xs")
      case True
      with IH False 1 show ?thesis
        by (simp add: chunks_step) (metis Nat.add_diff_assoc2 One_nat_def Suc_leI add.commute
            div_add_self2 length_greater_0_conv less_numeral_extra(3) plus_1_eq_Suc)
    next
      case small: False
      then have "drop n xs = []" by simp
      moreover have "(length xs + n - 1) div n = 1"
      proof -
        have "0 < length xs" using False by simp
        with small have "n \<le> length xs + n - 1" "length xs + n - 1 < 2 * n" by linarith+
        then show ?thesis by (metis One_nat_def div_nat_eqI mult.commute mult_1 numeral_2_eq_2)
      qed
      ultimately show ?thesis using False 1 by (simp add: chunks_step)
    qed
  qed
qed

section \<open>Lists\<close>

lemma zip_maps: "zip (map f xs) (map g xs) = map (\<lambda>x. (f x, g x)) xs"
  by (induction xs) simp_all

lemma sum_list_concat_map:
  "sum_list (map f (concat xss)) = sum_list (map (\<lambda>xs. sum_list (map f xs)) xss)"
  for f :: "'a \<Rightarrow> 'b :: monoid_add"
  by (induction xss) simp_all

lemma length_concat_ge: "xs \<in> set xss \<Longrightarrow> length xs \<le> length (concat xss)"
  by (auto simp: length_concat intro: member_le_sum_list)

lemma length_le_concat: "(\<And>xs. xs \<in> set xss \<Longrightarrow> xs \<noteq> []) \<Longrightarrow> length xss \<le> length (concat xss)"
proof (induction xss)
  case (Cons xs xss)
  then have "xs \<noteq> []" "length xss \<le> length (concat xss)" by simp_all
  then show ?case by (cases xs) simp_all
qed simp

lemma length_filter_mono:
  "(\<And>x. x \<in> set xs \<Longrightarrow> P x \<Longrightarrow> Q x) \<Longrightarrow> length (filter P xs) \<le> length (filter Q xs)"
  by (induction xs) auto

end
