(* ===== verification/Config.thy ===== *)
theory Config
  imports Prelude
begin

text \<open>
  Configuration of both programs: \<open>RedisConfig\<close> (\<open>gateway-rs/src/config.rs\<close>), the
  gateway's own variables (\<open>gateway-rs/src/main.rs\<close>, \<open>num_slices\<close> of \<open>service.rs\<close>,
  \<open>SLICE_TIMEOUT_MS\<close> of \<open>aggregator.rs\<close>) and the worker's \<open>Config::from_env\<close>
  (\<open>worker-rs/src/main.rs\<close>). The environment is a function from names to values; a variable
  that is unset or not UTF-8 is \<open>None\<close>. Arithmetic wraps, as it does in the release builds
  the repository's images are made with.
\<close>

type_synonym environment = "string \<Rightarrow> string option"

text \<open>\<open>env::var(k).ok().and_then(|v| v.parse::<T>().ok())\<close> for an unsigned \<open>T\<close>.\<close>

definition env_uint :: "nat \<Rightarrow> environment \<Rightarrow> string \<Rightarrow> nat option" where
  "env_uint bound env k = (case env k of None \<Rightarrow> None | Some v \<Rightarrow> parse_uint bound v)"

definition env_or :: "environment \<Rightarrow> string \<Rightarrow> string \<Rightarrow> string" where
  "env_or env k d = (case env k of None \<Rightarrow> d | Some v \<Rightarrow> v)"

section \<open>RedisConfig\<close>

definition ttl_hours :: "environment \<Rightarrow> string \<Rightarrow> nat \<Rightarrow> nat" where
  "ttl_hours env k d =
     (case env_uint (2 ^ 64) env k of None \<Rightarrow> d | Some h \<Rightarrow> (h * 3600) mod 2 ^ 64)"

definition result_ttl :: "environment \<Rightarrow> nat" where
  "result_ttl env = ttl_hours env ''REDIS_TTL_HOURS'' 3600"

definition slice_ttl :: "environment \<Rightarrow> nat" where
  "slice_ttl env = ttl_hours env ''REDIS_TTL_SLICE_HOURS'' 7200"

definition metadata_ttl :: "environment \<Rightarrow> nat" where
  "metadata_ttl env = ttl_hours env ''REDIS_TTL_METADATA_HOURS'' 86400"

definition progress_ttl :: "environment \<Rightarrow> nat" where
  "progress_ttl env = ttl_hours env ''REDIS_TTL_PROGRESS_HOURS'' 3600"

definition result_key :: "string \<Rightarrow> string" where
  "result_key job_id = ''result:'' @ job_id"

definition slice_key :: "string \<Rightarrow> nat \<Rightarrow> string" where
  "slice_key job_id slice_id = ''result:'' @ job_id @ '':'' @ dec slice_id"

definition metadata_key :: "string \<Rightarrow> string" where
  "metadata_key job_id = ''metadata:'' @ job_id"

definition progress_key :: "string \<Rightarrow> string" where
  "progress_key job_id = ''progress:'' @ job_id"

definition redis_url :: "environment \<Rightarrow> string" where
  "redis_url env =
     (let host = env_or env ''REDIS_HOST'' ''127.0.0.1'';
          port = (case env_uint (2 ^ 16) env ''REDIS_PORT'' of None \<Rightarrow> 6379 | Some p \<Rightarrow> p)
      in case env ''REDIS_PASSWORD'' of
           Some pw \<Rightarrow> ''redis://:'' @ pw @ ''@'' @ host @ '':'' @ dec port
         | None \<Rightarrow> ''redis://'' @ host @ '':'' @ dec port)"

text \<open>\<open>RedisManager::new\<close>: parsing the URL and connecting are the client library's.\<close>

definition redis_manager_new :: "(string \<Rightarrow> unit result) \<Rightarrow> (string \<Rightarrow> unit result) \<Rightarrow> environment \<Rightarrow> unit result" where
  "redis_manager_new client_open connect env =
     (let url = redis_url env
      in case client_open url of Err e \<Rightarrow> Err e | Ok _ \<Rightarrow> connect url)"

section \<open>The gateway's settings\<close>

definition num_slices :: "environment \<Rightarrow> nat" where
  "num_slices env =
     (case env_uint (2 ^ 64) env ''NUM_SLICES'' of
        None \<Rightarrow> 4
      | Some n \<Rightarrow> if n > 0 then n else 4)"

definition gateway_world_size :: "environment \<Rightarrow> nat" where
  "gateway_world_size env =
     (case env_uint (2 ^ 64) env ''NCCL_WORLD_SIZE'' of
        None \<Rightarrow> 4
      | Some n \<Rightarrow> if n > 0 then n else 4)"

definition slice_timeout_ms :: "environment \<Rightarrow> nat" where
  "slice_timeout_ms env =
     (case env_uint (2 ^ 64) env ''SLICE_TIMEOUT_MS'' of None \<Rightarrow> 30000 | Some ms \<Rightarrow> ms)"

section \<open>The worker's settings\<close>

definition env_u16 :: "environment \<Rightarrow> string \<Rightarrow> nat \<Rightarrow> nat" where
  "env_u16 env k d = (case env_uint (2 ^ 16) env k of None \<Rightarrow> d | Some n \<Rightarrow> n)"

definition env_u32 :: "environment \<Rightarrow> string \<Rightarrow> nat \<Rightarrow> nat" where
  "env_u32 env k d = (case env_uint (2 ^ 32) env k of None \<Rightarrow> d | Some n \<Rightarrow> n)"

definition env_usize :: "environment \<Rightarrow> string \<Rightarrow> nat \<Rightarrow> nat" where
  "env_usize env k d = (case env_uint (2 ^ 64) env k of None \<Rightarrow> d | Some n \<Rightarrow> n)"

definition env_i32 :: "environment \<Rightarrow> string \<Rightarrow> int \<Rightarrow> int" where
  "env_i32 env k d =
     (case env k of None \<Rightarrow> d
      | Some v \<Rightarrow> (case parse_i32 v of None \<Rightarrow> d | Some i \<Rightarrow> i))"

text \<open>\<open>base_port + rank as u16\<close>, on either side.\<close>

definition rank_port :: "nat \<Rightarrow> nat \<Rightarrow> nat" where
  "rank_port base_port rank = (base_port + rank mod 2 ^ 16) mod 2 ^ 16"

record worker_config =
  transport :: string
  redis_host :: string
  redis_port :: nat
  zmq_pull_endpoint :: string
  zmq_gateway_addr :: string
  zmq_base_port :: nat
  nccl_rank :: int
  nccl_world_size :: nat
  num_workers :: nat
  cuda_device :: nat

definition worker_from_env :: "environment \<Rightarrow> worker_config" where
  "worker_from_env env =
     (let rank = env_i32 env ''NCCL_RANK'' (- 1);
          addr = env_or env ''ZMQ_GATEWAY_ADDR'' '''';
          base_port = env_u16 env ''ZMQ_BASE_PORT'' 5560;
          pull = (if addr \<noteq> '''' \<and> rank \<ge> 0
                  then ''tcp://'' @ addr @ '':'' @ dec (rank_port base_port (nat rank))
                  else env_or env ''ZMQ_PULL_ENDPOINT'' ''ipc:///tmp/softmax_tasks'');
          device = (case env_uint (2 ^ 64) env ''CUDA_DEVICE'' of
                      Some d \<Rightarrow> d
                    | None \<Rightarrow> if rank \<ge> 0 then nat rank else 0)
      in \<lparr>transport = env_or env ''TRANSPORT'' ''zmq'',
          redis_host = env_or env ''REDIS_HOST'' ''localhost'',
          redis_port = env_u16 env ''REDIS_PORT'' 6379,
          zmq_pull_endpoint = pull, zmq_gateway_addr = addr, zmq_base_port = base_port,
          nccl_rank = rank, nccl_world_size = env_u32 env ''NCCL_WORLD_SIZE'' 4,
          num_workers = env_usize env ''NUM_WORKERS'' 4, cuda_device = device\<rparr>)"

section \<open>Keys\<close>

lemma slice_key_inject [simp]: "slice_key j i = slice_key j' i' \<longleftrightarrow> j = j' \<and> i = i'"
proof
  assume "slice_key j i = slice_key j' i'"
  then have e: "j @ CHR '':'' # dec i = j' @ CHR '':'' # dec i'"
    by (simp add: slice_key_def)
  then have "takeWhile (\<lambda>c. c \<noteq> CHR '':'') (rev (j @ CHR '':'' # dec i)) =
      takeWhile (\<lambda>c. c \<noteq> CHR '':'') (rev (j' @ CHR '':'' # dec i'))"
    by (rule arg_cong)
  moreover have "takeWhile (\<lambda>c. c \<noteq> CHR '':'') (rev (k @ CHR '':'' # dec n)) = rev (dec n)" for k n
    using colon_notin_dec [of n] by (subst rev_append) (auto simp: takeWhile_append takeWhile_tail)
  ultimately have "i = i'" by simp
  with e show "j = j' \<and> i = i'" by simp
qed simp

lemma result_key_inject [simp]: "result_key j = result_key j' \<longleftrightarrow> j = j'"
  by (simp add: result_key_def)

lemma metadata_key_inject [simp]: "metadata_key j = metadata_key j' \<longleftrightarrow> j = j'"
  by (simp add: metadata_key_def)

lemma progress_key_inject [simp]: "progress_key j = progress_key j' \<longleftrightarrow> j = j'"
  by (simp add: progress_key_def)

lemma key_kinds_distinct [simp]:
  "metadata_key j \<noteq> result_key j'" "metadata_key j \<noteq> progress_key j'"
  "metadata_key j \<noteq> slice_key j' i" "progress_key j \<noteq> result_key j'"
  "progress_key j \<noteq> slice_key j' i"
  "result_key j' \<noteq> metadata_key j" "progress_key j' \<noteq> metadata_key j"
  "slice_key j' i \<noteq> metadata_key j" "result_key j' \<noteq> progress_key j"
  "slice_key j' i \<noteq> progress_key j"
  by (simp_all add: metadata_key_def progress_key_def result_key_def slice_key_def)

text \<open>The final result of one job and a slice of another share a key exactly when the first
  job's identifier is the second's with the slice number appended.\<close>

lemma result_key_slice_key: "result_key j = slice_key j' i \<longleftrightarrow> j = j' @ '':'' @ dec i"
  by (simp add: result_key_def slice_key_def)

lemma result_key_not_own_slice [simp]: "result_key j \<noteq> slice_key j i" "slice_key j i \<noteq> result_key j"
  by (simp_all add: result_key_def slice_key_def)

lemma ttl_hours_exact: "ttl_hours env k d = h * 3600"
  if "env k = Some (dec h)" "h * 3600 < 2 ^ 64"
  using that by (simp add: ttl_hours_def env_uint_def)

lemma ttl_hours_default: "env_uint (2 ^ 64) env k = None \<Longrightarrow> ttl_hours env k d = d"
  by (simp add: ttl_hours_def)

lemma num_slices_bounds: "0 < num_slices env \<and> num_slices env < 2 ^ 64"
  using parse_uint_bound [of "2 ^ 64"]
  by (auto simp: num_slices_def env_uint_def split: option.splits)

lemma gateway_world_size_pos: "0 < gateway_world_size env"
  by (auto simp: gateway_world_size_def split: option.splits)

section \<open>Properties\<close>

text \<open>
  C29: the keys of the store do not collide: slices of different jobs or with different indices,
  the metadata, progress and final results of different jobs all have keys of their own. The one
  exception is the final result of a job whose identifier is that of another job with a colon and
  a slice number appended.
\<close>

theorem keys_do_not_collide:
  "(slice_key j i = slice_key j' i' \<longleftrightarrow> j = j' \<and> i = i') \<and>
   (result_key j = result_key j' \<longleftrightarrow> j = j') \<and> (metadata_key j = metadata_key j' \<longleftrightarrow> j = j') \<and>
   (progress_key j = progress_key j' \<longleftrightarrow> j = j') \<and>
   metadata_key j \<notin> {result_key j', progress_key j', slice_key j' i} \<and>
   progress_key j \<notin> {result_key j', slice_key j' i} \<and>
   (result_key j = slice_key j' i \<longleftrightarrow> j = j' @ '':'' @ dec i)"
  by (simp add: result_key_slice_key)

text \<open>
  The sockets of the ranks have endpoints of their own, as long as the rank numbers fit the
  16 bits of a port.
\<close>

lemma rank_ports_distinct:
  assumes "r < 2 ^ 16" "r' < 2 ^ 16" "r \<noteq> r'"
  shows "rank_port base r \<noteq> rank_port base r'"
proof
  assume "rank_port base r = rank_port base r'"
  then have "int ((base + r) mod 2 ^ 16) = int ((base + r') mod 2 ^ 16)"
    using assms(1,2) by (simp add: rank_port_def)
  then have "2 ^ 16 dvd (int (base + r) - int (base + r'))"
    by (simp only: of_nat_mod of_nat_power of_nat_numeral mod_eq_dvd_iff)
  then have "2 ^ 16 dvd (int r - int r')" by simp
  moreover have "int r - int r' \<noteq> 0" using assms(3) by simp
  ultimately have "\<bar>2 ^ 16 :: int\<bar> \<le> \<bar>int r - int r'\<bar>" by (rule dvd_imp_le_int [rotated])
  with assms(1,2) show False by simp
qed

end
