(* ===== verification/Ieee.thy ===== *)
theory Ieee
  imports Prelude "HOL-Library.Log_Nat"
begin

text \<open>
  IEEE-754 binary floating point as Rust's \<open>f32\<close> and \<open>f64\<close> use it, executable on bit
  patterns: a value is the word \<open>to_bits\<close> returns. A format has \<open>fbits\<close> fraction bits and
  \<open>ebits\<close> exponent bits. The magnitude code of a number is its bit pattern without the
  sign; finite magnitudes are ordered as their codes, so that rounding to nearest, ties to
  even, is a monotone map from the non-negative reals to codes. An arithmetic operation
  computes its exact result as a fraction and a power of two and rounds it once. A NaN result
  is the canonical quiet NaN (Rust leaves the payload unspecified).
\<close>

section \<open>Formats and values\<close>

record fmt =
  fbits :: nat
  ebits :: nat

definition b64 :: fmt where
  "b64 = \<lparr>fbits = 52, ebits = 11\<rparr>"

definition b32 :: fmt where
  "b32 = \<lparr>fbits = 23, ebits = 8\<rparr>"

datatype fp = NaN | Inf bool | Fin bool nat int

text \<open>The least exponent of a unit in the last place, and the code of infinity.\<close>

definition qmin :: "fmt \<Rightarrow> int" where
  "qmin F = 2 - 2 ^ (ebits F - 1) - int (fbits F)"

definition inf_mag :: "fmt \<Rightarrow> nat" where
  "inf_mag F = (2 ^ ebits F - 1) * 2 ^ fbits F"

definition sign_bit :: "fmt \<Rightarrow> nat" where
  "sign_bit F = 2 ^ (fbits F + ebits F)"

text \<open>\<open>Fin s m q\<close> is the number $(-1)^s \cdot m \cdot 2^q$.\<close>

definition decode :: "fmt \<Rightarrow> nat \<Rightarrow> fp" where
  "decode F b =
     (let s = (b div sign_bit F) mod 2 = 1;
          mag = b mod sign_bit F;
          ex = mag div 2 ^ fbits F;
          fr = mag mod 2 ^ fbits F
      in if mag = inf_mag F then Inf s
         else if inf_mag F < mag then NaN
         else if ex = 0 then Fin s fr (qmin F)
         else Fin s (2 ^ fbits F + fr) (qmin F + int ex - 1))"

definition pack :: "fmt \<Rightarrow> bool \<Rightarrow> nat \<Rightarrow> nat" where
  "pack F s mag = (if s then sign_bit F else 0) + min mag (inf_mag F)"

definition nan_code :: "fmt \<Rightarrow> nat" where
  "nan_code F = inf_mag F + 2 ^ (fbits F - 1)"

section \<open>Rounding\<close>

text \<open>The quotient \<open>n / d\<close> rounded to the nearest integer, ties to even.\<close>

definition rhe :: "nat \<Rightarrow> nat \<Rightarrow> nat" where
  "rhe n d =
     (let k = n div d; r = n mod d
      in if 2 * r < d then k
         else if d < 2 * r then k + 1
         else if even k then k else k + 1)"

text \<open>The integer part of the binary logarithm of \<open>n / d\<close>.\<close>

definition flog2 :: "nat \<Rightarrow> nat \<Rightarrow> int" where
  "flog2 n d =
     (let l = int (floorlog 2 n) - int (floorlog 2 d)
      in if (if 0 \<le> l then d * 2 ^ nat l \<le> n else d \<le> n * 2 ^ nat (- l)) then l else l - 1)"

text \<open>The code of $n / d \cdot 2^k$, rounded; not yet bounded by the code of infinity.\<close>

definition round_mag :: "fmt \<Rightarrow> nat \<Rightarrow> nat \<Rightarrow> int \<Rightarrow> nat" where
  "round_mag F n d k =
     (if n = 0 then 0
      else let q = max (qmin F) (flog2 n d + k - int (fbits F))
           in nat (q - qmin F) * 2 ^ fbits F +
              (if q \<le> k then rhe (n * 2 ^ nat (k - q)) d else rhe n (d * 2 ^ nat (q - k))))"

section \<open>Operations on bit patterns\<close>

definition neg_bits :: "fmt \<Rightarrow> nat \<Rightarrow> nat" where
  "neg_bits F x = (if (x div sign_bit F) mod 2 = 1 then x - sign_bit F else x + sign_bit F)"

definition signed_mant :: "bool \<Rightarrow> nat \<Rightarrow> int" where
  "signed_mant s m = (if s then - int m else int m)"

definition add_bits :: "fmt \<Rightarrow> nat \<Rightarrow> nat \<Rightarrow> nat" where
  "add_bits F x y =
     (case decode F x of
        NaN \<Rightarrow> nan_code F
      | Inf s \<Rightarrow> (case decode F y of
            NaN \<Rightarrow> nan_code F
          | Inf s' \<Rightarrow> if s = s' then pack F s (inf_mag F) else nan_code F
          | Fin _ _ _ \<Rightarrow> pack F s (inf_mag F))
      | Fin s m q \<Rightarrow> (case decode F y of
            NaN \<Rightarrow> nan_code F
          | Inf s' \<Rightarrow> pack F s' (inf_mag F)
          | Fin s' m' q' \<Rightarrow>
              (let k = min q q';
                   i = signed_mant s m * 2 ^ nat (q - k) + signed_mant s' m' * 2 ^ nat (q' - k)
               in if i = 0 then pack F (s \<and> s') 0
                  else pack F (i < 0) (round_mag F (nat \<bar>i\<bar>) 1 k))))"

definition mul_bits :: "fmt \<Rightarrow> nat \<Rightarrow> nat \<Rightarrow> nat" where
  "mul_bits F x y =
     (case decode F x of
        NaN \<Rightarrow> nan_code F
      | Inf s \<Rightarrow> (case decode F y of
            NaN \<Rightarrow> nan_code F
          | Inf s' \<Rightarrow> pack F (s \<noteq> s') (inf_mag F)
          | Fin s' m' _ \<Rightarrow> if m' = 0 then nan_code F else pack F (s \<noteq> s') (inf_mag F))
      | Fin s m q \<Rightarrow> (case decode F y of
            NaN \<Rightarrow> nan_code F
          | Inf s' \<Rightarrow> if m = 0 then nan_code F else pack F (s \<noteq> s') (inf_mag F)
          | Fin s' m' q' \<Rightarrow> pack F (s \<noteq> s') (round_mag F (m * m') 1 (q + q'))))"

definition div_bits :: "fmt \<Rightarrow> nat \<Rightarrow> nat \<Rightarrow> nat" where
  "div_bits F x y =
     (case decode F x of
        NaN \<Rightarrow> nan_code F
      | Inf s \<Rightarrow> (case decode F y of
            NaN \<Rightarrow> nan_code F
          | Inf _ \<Rightarrow> nan_code F
          | Fin s' _ _ \<Rightarrow> pack F (s \<noteq> s') (inf_mag F))
      | Fin s m q \<Rightarrow> (case decode F y of
            NaN \<Rightarrow> nan_code F
          | Inf s' \<Rightarrow> pack F (s \<noteq> s') 0
          | Fin s' m' q' \<Rightarrow>
              if m' = 0 then (if m = 0 then nan_code F else pack F (s \<noteq> s') (inf_mag F))
              else pack F (s \<noteq> s') (round_mag F m m' (q - q'))))"

definition less_bits :: "fmt \<Rightarrow> nat \<Rightarrow> nat \<Rightarrow> bool" where
  "less_bits F x y =
     (case decode F x of
        NaN \<Rightarrow> False
      | Inf s \<Rightarrow> (case decode F y of
            NaN \<Rightarrow> False
          | Inf s' \<Rightarrow> s \<and> \<not> s'
          | Fin _ _ _ \<Rightarrow> s)
      | Fin s m q \<Rightarrow> (case decode F y of
            NaN \<Rightarrow> False
          | Inf s' \<Rightarrow> \<not> s'
          | Fin s' m' q' \<Rightarrow>
              (let k = min q q'
               in signed_mant s m * 2 ^ nat (q - k) < signed_mant s' m' * 2 ^ nat (q' - k))))"

text \<open>
  \<open>max\<close> of Rust's floats and CUDA's \<open>fmaxf\<close>: a NaN operand is ignored. Of two equal
  operands (zeros of different sign) the first is returned; the standard leaves it open.
\<close>

definition max_bits :: "fmt \<Rightarrow> nat \<Rightarrow> nat \<Rightarrow> nat" where
  "max_bits F x y =
     (if decode F x = NaN then y
      else if decode F y = NaN then x
      else if less_bits F x y then y else x)"

text \<open>The \<open>as\<close> conversion from format \<open>F\<close> to format \<open>G\<close>.\<close>

definition conv_bits :: "fmt \<Rightarrow> fmt \<Rightarrow> nat \<Rightarrow> nat" where
  "conv_bits F G x =
     (case decode F x of
        NaN \<Rightarrow> nan_code G
      | Inf s \<Rightarrow> pack G s (inf_mag G)
      | Fin s m q \<Rightarrow> pack G s (round_mag G m 1 q))"

section \<open>f64 and f32\<close>

type_synonym f64 = "64 word"
type_synonym f32 = "32 word"

definition f64_add :: "f64 \<Rightarrow> f64 \<Rightarrow> f64" where
  "f64_add x y = of_nat (add_bits b64 (unat x) (unat y))"

definition f64_sub :: "f64 \<Rightarrow> f64 \<Rightarrow> f64" where
  "f64_sub x y = of_nat (add_bits b64 (unat x) (neg_bits b64 (unat y)))"

definition f64_mul :: "f64 \<Rightarrow> f64 \<Rightarrow> f64" where
  "f64_mul x y = of_nat (mul_bits b64 (unat x) (unat y))"

definition f64_div :: "f64 \<Rightarrow> f64 \<Rightarrow> f64" where
  "f64_div x y = of_nat (div_bits b64 (unat x) (unat y))"

definition f64_max :: "f64 \<Rightarrow> f64 \<Rightarrow> f64" where
  "f64_max x y = of_nat (max_bits b64 (unat x) (unat y))"

definition f32_add :: "f32 \<Rightarrow> f32 \<Rightarrow> f32" where
  "f32_add x y = of_nat (add_bits b32 (unat x) (unat y))"

definition f32_sub :: "f32 \<Rightarrow> f32 \<Rightarrow> f32" where
  "f32_sub x y = of_nat (add_bits b32 (unat x) (neg_bits b32 (unat y)))"

definition f32_mul :: "f32 \<Rightarrow> f32 \<Rightarrow> f32" where
  "f32_mul x y = of_nat (mul_bits b32 (unat x) (unat y))"

definition f32_div :: "f32 \<Rightarrow> f32 \<Rightarrow> f32" where
  "f32_div x y = of_nat (div_bits b32 (unat x) (unat y))"

definition f32_max :: "f32 \<Rightarrow> f32 \<Rightarrow> f32" where
  "f32_max x y = of_nat (max_bits b32 (unat x) (unat y))"

definition f64_of_f32 :: "f32 \<Rightarrow> f64" where
  "f64_of_f32 x = of_nat (conv_bits b32 b64 (unat x))"

definition f32_of_f64 :: "f64 \<Rightarrow> f32" where
  "f32_of_f64 x = of_nat (conv_bits b64 b32 (unat x))"

definition f64_cls :: "f64 \<Rightarrow> fp" where
  "f64_cls x = decode b64 (unat x)"

definition f32_cls :: "f32 \<Rightarrow> fp" where
  "f32_cls x = decode b32 (unat x)"

fun finite_fp :: "fp \<Rightarrow> bool" where
  "finite_fp (Fin _ _ _) = True"
| "finite_fp _ = False"

end
