(* ===== verification/Rounding.thy ===== *)
theory Rounding
  imports Ieee
begin

text \<open>
  The arithmetic of \<open>Ieee\<close> against the reals: the value of a magnitude code, rounding as a
  monotone map from the reals to codes that is exact on representable values and off by at most
  half a unit in the last place, and the operations on bit patterns stated with it.
\<close>

section \<open>Codes and rounding of non-negative reals\<close>

definition mag_val :: "fmt \<Rightarrow> nat \<Rightarrow> real" where
  "mag_val F c =
     (if c < 2 ^ fbits F then real c * 2 powi qmin F
      else real (2 ^ fbits F + c mod 2 ^ fbits F) *
             2 powi (qmin F + int (c div 2 ^ fbits F) - 1))"

definition rhe_real :: "real \<Rightarrow> nat" where
  "rhe_real x =
     (let k = nat \<lfloor>x\<rfloor>; r = x - real k
      in if r < 1 / 2 then k else if 1 / 2 < r then k + 1 else if even k then k else k + 1)"

definition qexp :: "fmt \<Rightarrow> real \<Rightarrow> int" where
  "qexp F x = max (qmin F) (\<lfloor>log 2 x\<rfloor> - int (fbits F))"

definition round_code :: "fmt \<Rightarrow> real \<Rightarrow> nat" where
  "round_code F x =
     (if x = 0 then 0
      else nat (qexp F x - qmin F) * 2 ^ fbits F + rhe_real (x / 2 powi qexp F x))"

lemma powi_pos [simp]: "0 < (2::real) powi q"
  by simp

lemma rhe_real_frac:
  assumes "0 < d"
  shows "rhe_real (real n / real d) = rhe n d"
proof -
  have k: "nat \<lfloor>real n / real d\<rfloor> = n div d"
    by (metis floor_divide_of_nat_eq nat_int)
  have "real n = real (n div d) * real d + real (n mod d)"
    by (metis div_mult_mod_eq of_nat_add of_nat_mult)
  then have r: "real n / real d - real (n div d) = real (n mod d) / real d"
    using assms by (simp add: field_simps)
  have "2 * (n mod d) < d \<longleftrightarrow> 2 * real (n mod d) < real d"
    and "d < 2 * (n mod d) \<longleftrightarrow> real d < 2 * real (n mod d)"
    by linarith+
  then have "real (n mod d) / real d < 1 / 2 \<longleftrightarrow> 2 * (n mod d) < d"
    and "1 / 2 < real (n mod d) / real d \<longleftrightarrow> d < 2 * (n mod d)"
    using assms by (simp_all add: field_simps)
  then show ?thesis
    unfolding rhe_real_def rhe_def Let_def k r by simp
qed

lemma rhe_real_bounds:
  assumes "0 \<le> x"
  shows "real (rhe_real x) \<le> x + 1 / 2" and "x - 1 / 2 \<le> real (rhe_real x)"
proof -
  define k where "k = nat \<lfloor>x\<rfloor>"
  have "real k \<le> x" "x < real k + 1"
    using assms unfolding k_def by linarith+
  then show "real (rhe_real x) \<le> x + 1 / 2" and "x - 1 / 2 \<le> real (rhe_real x)"
    by (auto simp: rhe_real_def Let_def simp flip: k_def)
qed

lemma rhe_real_of_nat [simp]: "rhe_real (real n) = n"
  by (simp add: rhe_real_def)

lemma rhe_real_mono:
  assumes "0 \<le> x" "x \<le> y"
  shows "rhe_real x \<le> rhe_real y"
proof (cases "nat \<lfloor>x\<rfloor> = nat \<lfloor>y\<rfloor>")
  case True
  with assms show ?thesis
    by (auto simp: rhe_real_def Let_def)
next
  case False
  with assms have "nat \<lfloor>x\<rfloor> + 1 \<le> nat \<lfloor>y\<rfloor>"
    by (metis Suc_eq_plus1 Suc_leI floor_mono le_neq_implies_less nat_mono)
  moreover have "rhe_real x \<le> nat \<lfloor>x\<rfloor> + 1" and "nat \<lfloor>y\<rfloor> \<le> rhe_real y"
    by (simp_all add: rhe_real_def Let_def)
  ultimately show ?thesis by linarith
qed

lemma rhe_real_ge: "real n \<le> x \<Longrightarrow> n \<le> rhe_real x"
  using rhe_real_mono [of "real n" x] by simp

lemma rhe_real_le: "0 \<le> x \<Longrightarrow> x \<le> real n \<Longrightarrow> rhe_real x \<le> n"
  using rhe_real_mono [of x "real n"] by simp

lemma powi_powr: "(2::real) powi q = 2 powr real_of_int q"
  by (simp add: powr_real_of_int')

lemma log2_floor_unique:
  assumes "2 powi l \<le> x" "x < 2 powi (l + 1)"
  shows "\<lfloor>log 2 x\<rfloor> = l"
proof -
  have x: "0 < x" using assms(1) powi_pos [of l] by linarith
  have "real_of_int l \<le> log 2 x"
    using assms(1) x by (subst le_log_iff) (auto simp: powi_powr)
  moreover have "log 2 x < real_of_int (l + 1)"
    using assms(2) x by (subst log_less_iff) (auto simp: powi_powr)
  ultimately show ?thesis by linarith
qed

lemma log2_floor_bounds:
  assumes "0 < x"
  shows "2 powi \<lfloor>log 2 x\<rfloor> \<le> x" and "x < 2 powi (\<lfloor>log 2 x\<rfloor> + 1)"
proof -
  have "2 powr real_of_int \<lfloor>log 2 x\<rfloor> \<le> x"
    using assms by (subst le_log_iff [symmetric]) auto
  then show "2 powi \<lfloor>log 2 x\<rfloor> \<le> x" by (simp only: powi_powr)
  have "log 2 x < real_of_int (\<lfloor>log 2 x\<rfloor> + 1)" by linarith
  then have "x < 2 powr real_of_int (\<lfloor>log 2 x\<rfloor> + 1)"
    using assms by (subst log_less_iff [symmetric]) auto
  then show "x < 2 powi (\<lfloor>log 2 x\<rfloor> + 1)" by (simp only: powi_powr)
qed

lemma mag_val_code:
  assumes "m \<le> 2 * 2 ^ fbits F" and "j = 0 \<or> 2 ^ fbits F \<le> m"
  shows "mag_val F (j * 2 ^ fbits F + m) = real m * 2 powi (qmin F + int j)"
proof -
  let ?T = "2 ^ fbits F :: nat"
  consider "m < ?T" | "?T \<le> m" "m < 2 * ?T" | "m = 2 * ?T"
    using assms(1) by linarith
  then show ?thesis
  proof cases
    case 1
    with assms(2) show ?thesis by (simp add: mag_val_def)
  next
    case 2
    then obtain f where f: "m = ?T + f" "f < ?T"
      by (metis le_Suc_ex mult_2 nat_add_left_cancel_less)
    have "(j * ?T + m) div ?T = j + 1" "(j * ?T + m) mod ?T = f"
      using f by (simp_all add: div_add1_eq)
    then show ?thesis
      using f by (simp add: mag_val_def)
  next
    case 3
    have eq: "j * ?T + m = (j + 2) * ?T" using 3 by simp
    have "mag_val F (j * ?T + m) = real ?T * 2 powi (qmin F + int j + 1)"
      unfolding eq by (simp add: mag_val_def add_ac)
    then show ?thesis
      using 3 by (simp add: power_int_add)
  qed
qed

lemma code_cases:
  fixes c :: nat
  obtains j m where "c = j * 2 ^ fbits F + m" "m < 2 * 2 ^ fbits F" "j = 0 \<or> 2 ^ fbits F \<le> m"
proof -
  let ?T = "2 ^ fbits F :: nat"
  have c: "c = c div ?T * ?T + c mod ?T" by (rule div_mult_mod_eq [symmetric])
  have r: "c mod ?T < ?T" by simp
  show thesis
  proof (cases "c div ?T")
    case 0
    then have "c < ?T" by (simp add: div_eq_0_iff)
    then show thesis using that [of 0 c] by simp
  next
    case (Suc j)
    then have "c = j * ?T + (?T + c mod ?T)" using c by (simp add: algebra_simps)
    with r show thesis using that [of j "?T + c mod ?T"] by simp
  qed
qed

lemma mag_val_nonneg [simp]: "0 \<le> mag_val F c"
  by (simp add: mag_val_def)

lemma mag_val_0 [simp]: "mag_val F 0 = 0"
  by (simp add: mag_val_def)

lemma mag_val_Suc: "mag_val F c < mag_val F (Suc c)"
proof -
  obtain j m where c: "c = j * 2 ^ fbits F + m" "m < 2 * 2 ^ fbits F" "j = 0 \<or> 2 ^ fbits F \<le> m"
    by (rule code_cases)
  have "mag_val F c = real m * 2 powi (qmin F + int j)"
    unfolding c(1) using c by (intro mag_val_code) auto
  moreover have "mag_val F (j * 2 ^ fbits F + Suc m) = real (Suc m) * 2 powi (qmin F + int j)"
    using c by (intro mag_val_code) auto
  ultimately show ?thesis
    using c by simp
qed

lemma mag_val_less_iff [simp]: "mag_val F c < mag_val F c' \<longleftrightarrow> c < c'"
  using strict_mono_less [of "mag_val F"] by (simp add: strict_mono_Suc_iff mag_val_Suc)

lemma mag_val_le_iff [simp]: "mag_val F c \<le> mag_val F c' \<longleftrightarrow> c \<le> c'"
  by (simp flip: not_less)

lemma mag_val_eq_iff [simp]: "mag_val F c = mag_val F c' \<longleftrightarrow> c = c'"
  by (metis mag_val_less_iff nat_neq_iff less_irrefl)

lemma flog2_floor:
  assumes "0 < n" "0 < d"
  shows "flog2 n d = \<lfloor>log 2 (real n / real d)\<rfloor>"
proof -
  define a b where "a = floorlog 2 n" and "b = floorlog 2 d"
  define l where "l = int a - int b"
  have a: "2 ^ (a - 1) \<le> n" "n < 2 ^ a" "0 < a" and b: "2 ^ (b - 1) \<le> d" "d < 2 ^ b" "0 < b"
    using floorlog_bounds [of n 2] floorlog_bounds [of d 2] assms
    by (auto simp: a_def b_def floorlog_def)
  have cond: "(if 0 \<le> l then d * 2 ^ nat l \<le> n else d \<le> n * 2 ^ nat (- l)) \<longleftrightarrow>
      2 powi l \<le> real n / real d"
  proof (cases "0 \<le> l")
    case True
    have "d * 2 ^ nat l \<le> n \<longleftrightarrow> real (d * 2 ^ nat l) \<le> real n"
      by (simp only: of_nat_le_iff)
    with True assms show ?thesis
      by (simp add: power_int_def field_simps)
  next
    case False
    have "d \<le> n * 2 ^ nat (- l) \<longleftrightarrow> real d \<le> real (n * 2 ^ nat (- l))"
      by (simp only: of_nat_le_iff)
    with False assms show ?thesis
      by (simp add: power_int_def field_simps)
  qed
  have ra: "2 ^ (a - 1) \<le> real n" "real n < 2 ^ a" and rb: "2 ^ (b - 1) \<le> real d" "real d < 2 ^ b"
    using a b by (metis of_nat_le_iff of_nat_less_iff of_nat_numeral of_nat_power)+
  have "2 powi (int a - 1) \<le> real n" "real n < 2 powi int a"
    "2 powi (int b - 1) \<le> real d" "real d < 2 powi int b"
    using ra rb a(3) b(3) by (simp_all add: of_nat_diff flip: power_int_of_nat)
  note bnds = this
  have lo: "2 powi (l - 1) \<le> real n / real d"
  proof -
    have "2 powi (l - 1) * real d \<le> 2 powi (l - 1) * 2 powi int b"
      using bnds(4) by (intro mult_left_mono) auto
    also have "\<dots> = 2 powi (int a - 1)"
      by (subst power_int_add [symmetric]) (auto simp: l_def)
    finally show ?thesis using bnds(1) assms by (simp add: field_simps)
  qed
  have hi: "real n / real d < 2 powi (l + 1)"
  proof -
    have "real n < 2 powi (l + 1) * 2 powi (int b - 1)"
      using bnds(2) by (subst power_int_add [symmetric]) (auto simp: l_def)
    also have "\<dots> \<le> 2 powi (l + 1) * real d"
      using bnds(3) by (intro mult_left_mono) auto
    finally show ?thesis using assms by (simp add: field_simps)
  qed
  show ?thesis
  proof (cases "2 powi l \<le> real n / real d")
    case True
    with hi have "\<lfloor>log 2 (real n / real d)\<rfloor> = l" by (intro log2_floor_unique)
    with True cond show ?thesis by (simp add: flog2_def Let_def flip: a_def b_def l_def)
  next
    case False
    with lo have "\<lfloor>log 2 (real n / real d)\<rfloor> = l - 1" by (intro log2_floor_unique) auto
    with False cond show ?thesis
      by (auto simp: flog2_def Let_def simp flip: a_def b_def l_def)
  qed
qed

lemma qexp_ge: "qmin F \<le> qexp F x"
  by (simp add: qexp_def)

lemma qexp_upper:
  assumes "0 < x"
  shows "x / 2 powi qexp F x < 2 * 2 ^ fbits F"
proof -
  have "x < 2 powi (\<lfloor>log 2 x\<rfloor> + 1)" using assms by (rule log2_floor_bounds)
  also have "\<dots> \<le> 2 powi (qexp F x + int (fbits F) + 1)"
    by (intro power_int_increasing) (auto simp: qexp_def)
  also have "\<dots> = 2 * 2 ^ fbits F * 2 powi qexp F x"
    by (simp add: power_int_add)
  finally show ?thesis by (simp add: field_simps)
qed

lemma qexp_lower:
  assumes "0 < x"
  shows "qexp F x = qmin F \<or> 2 ^ fbits F \<le> x / 2 powi qexp F x"
proof (cases "qexp F x = qmin F")
  case False
  then have q: "qexp F x + int (fbits F) = \<lfloor>log 2 x\<rfloor>" by (auto simp: qexp_def)
  have "2 ^ fbits F * 2 powi qexp F x = (2::real) powi (qexp F x + int (fbits F))"
    by (simp add: power_int_add)
  also have "\<dots> \<le> x" unfolding q using assms by (rule log2_floor_bounds)
  finally show ?thesis by (simp add: field_simps)
qed simp

lemma qexp_mono: "0 < x \<Longrightarrow> x \<le> y \<Longrightarrow> qexp F x \<le> qexp F y"
  using floor_mono [of "log 2 x" "log 2 y"] by (auto simp: qexp_def)

lemma round_mantissa_bounds:
  assumes "0 < x"
  shows "rhe_real (x / 2 powi qexp F x) \<le> 2 * 2 ^ fbits F"
    and "qexp F x = qmin F \<or> 2 ^ fbits F \<le> rhe_real (x / 2 powi qexp F x)"
proof -
  show "rhe_real (x / 2 powi qexp F x) \<le> 2 * 2 ^ fbits F"
    using qexp_upper [OF assms, of F] assms by (intro rhe_real_le) auto
  show "qexp F x = qmin F \<or> 2 ^ fbits F \<le> rhe_real (x / 2 powi qexp F x)"
    using qexp_lower [OF assms, of F] by (auto intro!: rhe_real_ge)
qed

lemma mag_val_round:
  assumes "0 < x"
  shows "mag_val F (round_code F x) = real (rhe_real (x / 2 powi qexp F x)) * 2 powi qexp F x"
  using round_mantissa_bounds [OF assms, of F] qexp_ge [of F x] assms
    mag_val_code [of "rhe_real (x / 2 powi qexp F x)" F "nat (qexp F x - qmin F)"]
  by (auto simp: round_code_def)

lemma round_error:
  assumes "0 < x"
  shows "\<bar>mag_val F (round_code F x) - x\<bar> \<le> 2 powi qexp F x / 2"
proof -
  let ?u = "2 powi qexp F x :: real" and ?m = "rhe_real (x / 2 powi qexp F x)"
  have "0 \<le> x / ?u" using assms by simp
  from rhe_real_bounds [OF this] have "\<bar>real ?m - x / ?u\<bar> \<le> 1 / 2"
    by linarith
  then have "\<bar>real ?m - x / ?u\<bar> * ?u \<le> 1 / 2 * ?u"
    by (rule mult_right_mono) simp
  moreover have "\<bar>real ?m - x / ?u\<bar> * ?u = \<bar>(real ?m - x / ?u) * ?u\<bar>"
    by (simp add: abs_mult)
  moreover have "(real ?m - x / ?u) * ?u = real ?m * ?u - x"
    by (simp add: left_diff_distrib)
  ultimately show ?thesis using assms by (simp add: mag_val_round)
qed

lemma round_code_mono:
  assumes "0 \<le> x" "x \<le> y"
  shows "round_code F x \<le> round_code F y"
proof (cases "x = 0")
  case True
  then show ?thesis by (simp add: round_code_def)
next
  case False
  with assms have x: "0 < x" and y: "0 < y" by auto
  let ?T = "2 ^ fbits F :: nat"
  let ?q = "qexp F x" and ?q' = "qexp F y"
  have q: "?q \<le> ?q'" "qmin F \<le> ?q" using qexp_mono x assms(2) qexp_ge by auto
  show ?thesis
  proof (cases "?q = ?q'")
    case True
    with x assms(2) show ?thesis
      by (auto simp: round_code_def intro!: rhe_real_mono divide_right_mono)
  next
    case False
    with q have "nat (?q - qmin F) + 1 \<le> nat (?q' - qmin F)" by linarith
    then have "nat (?q - qmin F) * ?T + ?T \<le> nat (?q' - qmin F) * ?T"
      by (metis add_mult_distrib mult_1 mult_le_mono1)
    moreover have "rhe_real (x / 2 powi ?q) \<le> 2 * ?T" "?T \<le> rhe_real (y / 2 powi ?q')"
      using round_mantissa_bounds [OF x, of F] round_mantissa_bounds [OF y, of F] False q by auto
    ultimately show ?thesis using x y by (simp add: round_code_def)
  qed
qed

lemma round_code_0 [simp]: "round_code F 0 = 0"
  by (simp add: round_code_def)

lemma round_exact:
  assumes m: "m < 2 * 2 ^ fbits F" and k: "qmin F \<le> k"
  shows "mag_val F (round_code F (real m * 2 powi k)) = real m * 2 powi k"
proof (cases "m = 0")
  case False
  let ?x = "real m * 2 powi k" and ?q = "qexp F (real m * 2 powi k)"
  have x: "0 < ?x" using False by simp
  have "real m < real (2 * 2 ^ fbits F)"
    using m by (simp only: of_nat_less_iff)
  then have "?x < 2 * 2 ^ fbits F * 2 powi k"
    by (intro mult_strict_right_mono) auto
  also have "\<dots> = 2 powi (k + int (fbits F) + 1)" by (simp add: power_int_add)
  finally have lt: "?x < 2 powi (k + int (fbits F) + 1)" .
  have "2 powi \<lfloor>log 2 ?x\<rfloor> \<le> ?x" using x by (rule log2_floor_bounds)
  with lt have "(2::real) powi \<lfloor>log 2 ?x\<rfloor> < 2 powi (k + int (fbits F) + 1)" by linarith
  then have "\<lfloor>log 2 ?x\<rfloor> < k + int (fbits F) + 1"
    using power_int_increasing [of "k + int (fbits F) + 1" "\<lfloor>log 2 ?x\<rfloor>" "2::real"]
    by (meson linorder_not_less one_le_numeral)
  then have q: "?q \<le> k" using k by (simp add: qexp_def)
  have "?x / 2 powi ?q = real m * 2 powi (k - ?q)" by (simp add: power_int_diff)
  also have "\<dots> = real (m * 2 ^ nat (k - ?q))" using q by (simp add: power_int_def)
  finally have e: "?x / 2 powi ?q = real (m * 2 ^ nat (k - ?q))" .
  have "mag_val F (round_code F ?x) = real (m * 2 ^ nat (k - ?q)) * 2 powi ?q"
    unfolding mag_val_round [OF x] e rhe_real_of_nat ..
  also have "\<dots> = ?x" unfolding e [symmetric] by simp
  finally show ?thesis .
qed simp

lemma round_code_mag_val [simp]: "round_code F (mag_val F c) = c"
proof -
  obtain j m where c: "c = j * 2 ^ fbits F + m" "m < 2 * 2 ^ fbits F" "j = 0 \<or> 2 ^ fbits F \<le> m"
    by (rule code_cases)
  then have v: "mag_val F c = real m * 2 powi (qmin F + int j)"
    unfolding c(1) by (intro mag_val_code) auto
  have "mag_val F (round_code F (mag_val F c)) = mag_val F c"
    unfolding v using c(2) by (intro round_exact) auto
  then show ?thesis by simp
qed

lemma round_mag_code:
  assumes "0 < d"
  shows "round_mag F n d k = round_code F (real n / real d * 2 powi k)"
proof (cases "n = 0")
  case False
  let ?x = "real n / real d * 2 powi k"
  have "log 2 ?x = log 2 (real n / real d) + real_of_int k"
    using False assms by (subst log_mult) (auto simp: powi_powr)
  then have "\<lfloor>log 2 ?x\<rfloor> = flog2 n d + k"
    using False assms by (simp add: flog2_floor)
  then have q: "max (qmin F) (flog2 n d + k - int (fbits F)) = qexp F ?x"
    by (simp add: qexp_def)
  define e where "e = qexp F ?x"
  have "(if e \<le> k then rhe (n * 2 ^ nat (k - e)) d else rhe n (d * 2 ^ nat (e - k))) =
      rhe_real (?x / 2 powi e)"
  proof (cases "e \<le> k")
    case True
    have "?x / 2 powi e = real n * 2 powi (k - e) / real d" by (simp add: power_int_diff)
    also have "\<dots> = real (n * 2 ^ nat (k - e)) / real d"
      using True by (simp add: power_int_def)
    finally show ?thesis using True assms by (simp only: rhe_real_frac if_True)
  next
    case less: False
    then have "2 powi (e - k) = real (2 ^ nat (e - k))"
      by (simp add: power_int_def)
    then have "?x / 2 powi e = real n / real (d * 2 ^ nat (e - k))"
      by (simp add: power_int_diff field_simps)
    moreover have "0 < d * 2 ^ nat (e - k)" using assms by simp
    ultimately show ?thesis using less by (simp only: rhe_real_frac if_False)
  qed
  then show ?thesis
    using False assms unfolding round_mag_def round_code_def q Let_def e_def by simp
qed (simp add: round_mag_def)

section \<open>Bit patterns and their values\<close>

lemma inf_mag_less_sign_bit: "inf_mag F < sign_bit F"
proof -
  have "inf_mag F < 2 ^ ebits F * 2 ^ fbits F"
    by (simp add: inf_mag_def)
  then show ?thesis by (simp add: sign_bit_def power_add mult.commute)
qed

lemma pack_lt: "pack F s c < 2 * sign_bit F"
  using inf_mag_less_sign_bit [of F] by (auto simp: pack_def min_def)

lemma pack_split:
  "(pack F s c div sign_bit F) mod 2 = (if s then 1 else 0)"
  "pack F s c mod sign_bit F = min c (inf_mag F)"
proof -
  have "min c (inf_mag F) < sign_bit F"
    using inf_mag_less_sign_bit [of F] by (auto simp: min_def)
  then show "(pack F s c div sign_bit F) mod 2 = (if s then 1 else 0)"
    "pack F s c mod sign_bit F = min c (inf_mag F)"
    by (auto simp: pack_def div_add1_eq)
qed

lemma decode_pack_inf: "inf_mag F \<le> c \<Longrightarrow> decode F (pack F s c) = Inf s"
  by (auto simp: decode_def Let_def pack_split)

lemma decode_pack:
  assumes "c < inf_mag F"
  obtains m q where "decode F (pack F s c) = Fin s m q" "m < 2 * 2 ^ fbits F"
    "qmin F \<le> q" "real m * 2 powi q = mag_val F c"
proof -
  let ?T = "2 ^ fbits F :: nat"
  have d: "decode F (pack F s c) =
      (if c div ?T = 0 then Fin s (c mod ?T) (qmin F)
       else Fin s (?T + c mod ?T) (qmin F + int (c div ?T) - 1))"
    using assms by (auto simp: decode_def Let_def pack_split)
  show thesis
  proof (cases "c div ?T = 0")
    case True
    then have "c < ?T" by (simp add: div_eq_0_iff)
    with True show thesis using d that [of c "qmin F"] by (simp add: mag_val_def)
  next
    case False
    then have "\<not> c < ?T" by (auto simp: div_eq_0_iff)
    with False show thesis
      using d that [of "?T + c mod ?T" "qmin F + int (c div ?T) - 1"] by (simp add: mag_val_def)
  qed
qed

lemma pack_cases:
  assumes "b < 2 * sign_bit F" "decode F b \<noteq> NaN"
  obtains s c where "b = pack F s c" "c \<le> inf_mag F"
proof -
  let ?S = "sign_bit F"
  have m: "b mod ?S \<le> inf_mag F"
    using assms(2) by (auto simp: decode_def Let_def split: if_splits)
  have "b div ?S < 2" using assms(1) by (simp add: less_mult_imp_div_less)
  then have "b div ?S = 0 \<or> b div ?S = 1" by linarith
  then have "b = (if b div ?S = 1 then ?S else 0) + b mod ?S"
    by (elim disjE) (use div_mult_mod_eq [of b ?S] in \<open>simp only: mult_0 mult_1 add_0 if_True if_False simp_thms zero_neq_one\<close>)+
  with m have "b = pack F (b div ?S = 1) (b mod ?S)"
    by (simp add: pack_def)
  with m show thesis using that by blast
qed

lemma conv_pack:
  assumes "c < inf_mag F"
  shows "conv_bits F G (pack F s c) = pack G s (round_code G (mag_val F c))"
proof -
  obtain m q where "decode F (pack F s c) = Fin s m q" "real m * 2 powi q = mag_val F c"
    using assms by (rule decode_pack)
  then show ?thesis
    by (simp add: conv_bits_def round_mag_code)
qed

lemma conv_pack_inf: "inf_mag F \<le> c \<Longrightarrow> conv_bits F G (pack F s c) = pack G s (inf_mag G)"
  by (simp add: conv_bits_def decode_pack_inf)

section \<open>Arithmetic on non-negative finite numbers\<close>

lemma round_mag_0 [simp]: "round_mag F 0 d k = 0"
  by (simp add: round_mag_def)

lemma pack_round_int:
  "(if int n = 0 then pack F False 0
    else pack F (int n < 0) (round_mag F (nat \<bar>int n\<bar>) 1 k)) = pack F False (round_mag F n 1 k)"
  by (cases "n = 0") simp_all

lemma add_pack:
  assumes "c < inf_mag F" "c' < inf_mag F"
  shows "add_bits F (pack F False c) (pack F False c') =
    pack F False (round_code F (mag_val F c + mag_val F c'))"
proof -
  obtain m q where d: "decode F (pack F False c) = Fin False m q" "real m * 2 powi q = mag_val F c"
    using assms(1) by (rule decode_pack)
  obtain m' q' where d': "decode F (pack F False c') = Fin False m' q'"
      "real m' * 2 powi q' = mag_val F c'"
    using assms(2) by (rule decode_pack)
  let ?k = "min q q'"
  let ?n = "m * 2 ^ nat (q - ?k) + m' * 2 ^ nat (q' - ?k)"
  have i: "signed_mant False m * 2 ^ nat (q - ?k) + signed_mant False m' * 2 ^ nat (q' - ?k) = int ?n"
    by (simp add: signed_mant_def)
  have p: "2 ^ nat (p - ?k) * 2 powi ?k = (2 :: real) powi p" if "?k \<le> p" for p
    using that by (subst power_int_of_nat [symmetric], subst power_int_add [symmetric]) auto
  have "real ?n * 2 powi ?k = real m * 2 powi q + real m' * 2 powi q'"
    by (simp add: distrib_right mult.assoc p)
  then have v: "real ?n * 2 powi ?k = mag_val F c + mag_val F c'"
    by (simp add: d d')
  have "add_bits F (pack F False c) (pack F False c') = pack F False (round_mag F ?n 1 ?k)"
    by (simp only: add_bits_def d(1) d'(1) fp.case Let_def i conj_absorb pack_round_int)
  also have "round_mag F ?n 1 ?k = round_code F (mag_val F c + mag_val F c')"
    by (simp only: round_mag_code [OF zero_less_one] v [symmetric]) simp
  finally show ?thesis .
qed

lemma mul_pack:
  assumes "c < inf_mag F" "c' < inf_mag F"
  shows "mul_bits F (pack F s c) (pack F s' c') =
    pack F (s \<noteq> s') (round_code F (mag_val F c * mag_val F c'))"
proof -
  obtain m q where d: "decode F (pack F s c) = Fin s m q" "real m * 2 powi q = mag_val F c"
    using assms(1) by (rule decode_pack)
  obtain m' q' where d': "decode F (pack F s' c') = Fin s' m' q'"
      "real m' * 2 powi q' = mag_val F c'"
    using assms(2) by (rule decode_pack)
  have "real (m * m') * 2 powi (q + q') = mag_val F c * mag_val F c'"
    by (simp add: power_int_add flip: d(2) d'(2))
  then show ?thesis
    by (simp add: mul_bits_def d(1) d'(1) round_mag_code)
qed

lemma div_pack:
  assumes "c < inf_mag F" "c' < inf_mag F" "0 < c'"
  shows "div_bits F (pack F s c) (pack F s' c') =
    pack F (s \<noteq> s') (round_code F (mag_val F c / mag_val F c'))"
proof -
  obtain m q where d: "decode F (pack F s c) = Fin s m q" "real m * 2 powi q = mag_val F c"
    using assms(1) by (rule decode_pack)
  obtain m' q' where d': "decode F (pack F s' c') = Fin s' m' q'"
      "real m' * 2 powi q' = mag_val F c'"
    using assms(2) by (rule decode_pack)
  have "0 < mag_val F c'" using assms(3) mag_val_less_iff [of F 0 c'] by simp
  then have m': "0 < m'" using d'(2) by (cases m') auto
  have "real m / real m' * 2 powi (q - q') = mag_val F c / mag_val F c'"
    by (simp add: power_int_diff flip: d(2) d'(2))
  with m' show ?thesis
    by (simp add: div_bits_def d(1) d'(1) round_mag_code)
qed

section \<open>Widening and narrowing\<close>

lemma mag_val_inf:
  assumes "0 < ebits F"
  shows "mag_val F (inf_mag F) = 2 powi (qmin F + 2 ^ ebits F - 2 + int (fbits F))"
proof -
  obtain k where k: "(2::nat) ^ ebits F = k + 2"
    using le_Suc_ex [of 2 "2 ^ ebits F"] self_le_power [of "2::nat" "ebits F"] assms
    by (auto simp: add.commute)
  have "inf_mag F = k * 2 ^ fbits F + 2 ^ fbits F"
    by (simp add: inf_mag_def k)
  moreover have "mag_val F (k * 2 ^ fbits F + 2 ^ fbits F) = real (2 ^ fbits F) * 2 powi (qmin F + int k)"
    by (rule mag_val_code) auto
  ultimately have "mag_val F (inf_mag F) = 2 powi (qmin F + int k + int (fbits F))"
    by (simp add: power_int_add)
  moreover have "int k = 2 ^ ebits F - 2"
    using k by (metis add_diff_cancel_right' of_nat_add of_nat_numeral of_nat_power)
  ultimately show ?thesis
    by (simp add: add_diff_eq)
qed


lemma inf_mag_b64: "inf_mag b64 = 0x7FF0000000000000"
  and inf_mag_b32: "inf_mag b32 = 0x7F800000"
  and sign_bit_b64: "sign_bit b64 = 0x8000000000000000"
  and sign_bit_b32: "sign_bit b32 = 0x80000000"
  and qmin_b64: "qmin b64 = -1074"
  and qmin_b32: "qmin b32 = -149"
  and fbits_b64: "fbits b64 = 52"
  and fbits_b32: "fbits b32 = 23"
  by (simp_all add: inf_mag_def sign_bit_def qmin_def b64_def b32_def)

lemmas fmt_simps = inf_mag_b64 inf_mag_b32 sign_bit_b64 sign_bit_b32 qmin_b64 qmin_b32
  fbits_b64 fbits_b32

lemma mag_val_inf_b64: "mag_val b64 (inf_mag b64) = 2 powi 1024"
  and mag_val_inf_b32: "mag_val b32 (inf_mag b32) = 2 powi 128"
  using mag_val_inf [of b64] mag_val_inf [of b32]
  unfolding fmt_simps by (simp_all add: b64_def b32_def)

text \<open>Every finite \<open>f32\<close> is a finite \<open>f64\<close>.\<close>

lemma widen_code:
  assumes "c < inf_mag b32"
  shows "mag_val b64 (round_code b64 (mag_val b32 c)) = mag_val b32 c"
    and "round_code b64 (mag_val b32 c) < inf_mag b64"
proof -
  obtain m q where d: "m < 2 * 2 ^ fbits b32" "qmin b32 \<le> q" "real m * 2 powi q = mag_val b32 c"
    using assms by (rule decode_pack)
  have "m < 2 * 2 ^ fbits b64" "qmin b64 \<le> q"
    using d(1,2) by (simp_all add: fmt_simps)
  from round_exact [OF this]
  show e: "mag_val b64 (round_code b64 (mag_val b32 c)) = mag_val b32 c"
    by (simp add: d(3))
  have "mag_val b32 c < 2 powi 128"
    using assms by (simp only: mag_val_less_iff flip: mag_val_inf_b32)
  also have "\<dots> \<le> 2 powi 1024" by (rule power_int_increasing) auto
  finally have "mag_val b64 (round_code b64 (mag_val b32 c)) < mag_val b64 (inf_mag b64)"
    by (simp only: e mag_val_inf_b64)
  then show "round_code b64 (mag_val b32 c) < inf_mag b64"
    by (simp only: mag_val_less_iff)
qed

lemma unat_f32_lt: "unat (w :: f32) < 2 * sign_bit b32"
  using unsigned_less [of w, where ?'a = nat] by (simp add: fmt_simps)

lemma unat_f64_lt: "unat (w :: f64) < 2 * sign_bit b64"
  using unsigned_less [of w, where ?'a = nat] by (simp add: fmt_simps)

lemma word_of_unat: "unat w = n \<Longrightarrow> w = of_nat n"
  by auto

lemma unat_of_pack64: "unat (of_nat (pack b64 s c) :: f64) = pack b64 s c"
  using pack_lt [of b64 s c] by (simp add: unat_of_nat fmt_simps)

lemma unat_of_pack32: "unat (of_nat (pack b32 s c) :: f32) = pack b32 s c"
  using pack_lt [of b32 s c] by (simp add: unat_of_nat fmt_simps)

lemma f32_cases:
  assumes "f32_cls w \<noteq> NaN"
  obtains s c where "w = of_nat (pack b32 s c)" "c \<le> inf_mag b32"
proof -
  obtain s c where "unat w = pack b32 s c" "c \<le> inf_mag b32"
    using unat_f32_lt assms unfolding f32_cls_def by (rule pack_cases)
  then show thesis using that [of s c] word_of_unat by blast
qed

lemma f64_cases:
  assumes "f64_cls w \<noteq> NaN"
  obtains s c where "w = of_nat (pack b64 s c)" "c \<le> inf_mag b64"
proof -
  obtain s c where "unat w = pack b64 s c" "c \<le> inf_mag b64"
    using unat_f64_lt assms unfolding f64_cls_def by (rule pack_cases)
  then show thesis using that [of s c] word_of_unat by blast
qed

lemma f64_of_f32_pack:
  "f64_of_f32 (of_nat (pack b32 s c)) =
    of_nat (pack b64 s (if c < inf_mag b32 then round_code b64 (mag_val b32 c) else inf_mag b64))"
  by (simp add: f64_of_f32_def unat_of_pack32 conv_pack conv_pack_inf)

lemma narrow_widen:
  assumes "f32_cls w \<noteq> NaN"
  shows "f32_of_f64 (f64_of_f32 w) = w"
proof -
  obtain s c where w: "w = of_nat (pack b32 s c)" "c \<le> inf_mag b32"
    using assms by (rule f32_cases)
  show ?thesis
  proof (cases "c < inf_mag b32")
    case True
    then show ?thesis
      by (simp add: w f64_of_f32_pack f32_of_f64_def unat_of_pack64 conv_pack widen_code)
  next
    case False
    then show ?thesis
      using w(2) by (simp add: w(1) f64_of_f32_pack f32_of_f64_def unat_of_pack64 conv_pack_inf)
  qed
qed

lemma f64_finite_pack: "finite_fp (f64_cls (of_nat (pack b64 s c))) \<longleftrightarrow> c < inf_mag b64"
proof (cases "c < inf_mag b64")
  case True
  then show ?thesis
    by (auto simp: f64_cls_def unat_of_pack64 elim: decode_pack [of c b64, where s = s])
next
  case False
  then show ?thesis by (simp add: f64_cls_def unat_of_pack64 decode_pack_inf)
qed

lemma f32_finite_pack: "finite_fp (f32_cls (of_nat (pack b32 s c))) \<longleftrightarrow> c < inf_mag b32"
proof (cases "c < inf_mag b32")
  case True
  then show ?thesis
    by (auto simp: f32_cls_def unat_of_pack32 elim: decode_pack [of c b32, where s = s])
next
  case False
  then show ?thesis by (simp add: f32_cls_def unat_of_pack32 decode_pack_inf)
qed

lemma finite_widen: "finite_fp (f32_cls w) \<Longrightarrow> finite_fp (f64_cls (f64_of_f32 w))"
proof -
  assume fin: "finite_fp (f32_cls w)"
  then have "f32_cls w \<noteq> NaN" by auto
  then obtain s c where "w = of_nat (pack b32 s c)" "c \<le> inf_mag b32" by (rule f32_cases)
  with fin show ?thesis
    by (simp add: f32_finite_pack f64_of_f32_pack f64_finite_pack widen_code)
qed

end
