(* ===== verification/Arith.thy ===== *)
theory Arith
  imports Rounding
begin

text \<open>
  The floating-point operations the numeric code is written with, as a record, so that each
  numeric routine is translated once and read twice: over \<open>ieee\<close>, the bit-precise
  arithmetic of \<open>Ieee\<close> (with the platform's \<open>exp\<close> as a parameter, since neither Rust nor
  CUDA fixes its rounding), and over \<open>exact\<close>, real arithmetic extended with the special
  values of IEEE-754, which is what the algorithm computes when nothing is rounded.
\<close>

section \<open>The operations\<close>

record ('d, 's) arith =
  d_add :: "'d \<Rightarrow> 'd \<Rightarrow> 'd"
  d_sub :: "'d \<Rightarrow> 'd \<Rightarrow> 'd"
  d_mul :: "'d \<Rightarrow> 'd \<Rightarrow> 'd"
  d_div :: "'d \<Rightarrow> 'd \<Rightarrow> 'd"
  d_max :: "'d \<Rightarrow> 'd \<Rightarrow> 'd"
  d_exp :: "'d \<Rightarrow> 'd"
  d_ninf :: 'd
  d_sum0 :: 'd
  d_zero :: 'd
  d_one :: 'd
  s_add :: "'s \<Rightarrow> 's \<Rightarrow> 's"
  s_sub :: "'s \<Rightarrow> 's \<Rightarrow> 's"
  s_mul :: "'s \<Rightarrow> 's \<Rightarrow> 's"
  s_div :: "'s \<Rightarrow> 's \<Rightarrow> 's"
  s_max :: "'s \<Rightarrow> 's \<Rightarrow> 's"
  s_exp :: "'s \<Rightarrow> 's"
  s_ninf :: 's
  s_sum0 :: 's
  s_zero :: 's
  s_one :: 's
  s_pad :: 's
  narrow :: "'d \<Rightarrow> 's"
  widen :: "'s \<Rightarrow> 'd"

text \<open>
  The two iterator reductions of the code: \<open>fold(NEG_INFINITY, max)\<close>, and \<open>sum\<close>, whose
  neutral element is the field \<open>sum0\<close> (minus zero in the standard library).
\<close>

definition d_maximum :: "('d, 's) arith \<Rightarrow> 'd list \<Rightarrow> 'd" where
  "d_maximum A xs = foldl (d_max A) (d_ninf A) xs"

definition d_sum :: "('d, 's) arith \<Rightarrow> 'd list \<Rightarrow> 'd" where
  "d_sum A xs = foldl (d_add A) (d_sum0 A) xs"

definition s_maximum :: "('d, 's) arith \<Rightarrow> 's list \<Rightarrow> 's" where
  "s_maximum A xs = foldl (s_max A) (s_ninf A) xs"

definition s_sum :: "('d, 's) arith \<Rightarrow> 's list \<Rightarrow> 's" where
  "s_sum A xs = foldl (s_add A) (s_sum0 A) xs"

section \<open>Bit-precise arithmetic\<close>

definition ieee :: "(f64 \<Rightarrow> f64) \<Rightarrow> (f32 \<Rightarrow> f32) \<Rightarrow> (f64, f32) arith" where
  "ieee exp64 exp32 =
     \<lparr>d_add = f64_add, d_sub = f64_sub, d_mul = f64_mul, d_div = f64_div, d_max = f64_max,
      d_exp = exp64, d_ninf = 0xFFF0000000000000, d_sum0 = 0x8000000000000000,
      d_zero = 0, d_one = 0x3FF0000000000000,
      s_add = f32_add, s_sub = f32_sub, s_mul = f32_mul, s_div = f32_div, s_max = f32_max,
      s_exp = exp32, s_ninf = 0xFF800000, s_sum0 = 0x80000000,
      s_zero = 0, s_one = 0x3F800000, s_pad = 0xFE967699,
      narrow = f32_of_f64, widen = f64_of_f32\<rparr>"

section \<open>Exact arithmetic\<close>

datatype xr = XNaN | XInf bool | XR real

definition x_add :: "xr \<Rightarrow> xr \<Rightarrow> xr" where
  "x_add x y =
     (case x of XNaN \<Rightarrow> XNaN
      | XInf s \<Rightarrow> (case y of XNaN \<Rightarrow> XNaN | XInf s' \<Rightarrow> if s = s' then x else XNaN | XR _ \<Rightarrow> x)
      | XR a \<Rightarrow> (case y of XR b \<Rightarrow> XR (a + b) | _ \<Rightarrow> y))"

definition x_neg :: "xr \<Rightarrow> xr" where
  "x_neg x = (case x of XNaN \<Rightarrow> XNaN | XInf s \<Rightarrow> XInf (\<not> s) | XR a \<Rightarrow> XR (- a))"

definition x_mul :: "xr \<Rightarrow> xr \<Rightarrow> xr" where
  "x_mul x y =
     (case x of XNaN \<Rightarrow> XNaN
      | XInf s \<Rightarrow> (case y of XNaN \<Rightarrow> XNaN | XInf s' \<Rightarrow> XInf (s \<noteq> s')
                  | XR b \<Rightarrow> if b = 0 then XNaN else XInf (s \<noteq> (b < 0)))
      | XR a \<Rightarrow> (case y of XNaN \<Rightarrow> XNaN
                | XInf s \<Rightarrow> if a = 0 then XNaN else XInf (s \<noteq> (a < 0))
                | XR b \<Rightarrow> XR (a * b)))"

definition x_div :: "xr \<Rightarrow> xr \<Rightarrow> xr" where
  "x_div x y =
     (case x of XNaN \<Rightarrow> XNaN
      | XInf s \<Rightarrow> (case y of XR b \<Rightarrow> XInf (s \<noteq> (b < 0)) | _ \<Rightarrow> XNaN)
      | XR a \<Rightarrow> (case y of XNaN \<Rightarrow> XNaN | XInf _ \<Rightarrow> XR 0
                | XR b \<Rightarrow> if b = 0 then (if a = 0 then XNaN else XInf (a < 0)) else XR (a / b)))"

definition x_max :: "xr \<Rightarrow> xr \<Rightarrow> xr" where
  "x_max x y =
     (case x of XNaN \<Rightarrow> y
      | XInf s \<Rightarrow> (case y of XNaN \<Rightarrow> x | _ \<Rightarrow> if s then y else x)
      | XR a \<Rightarrow> (case y of XNaN \<Rightarrow> x | XInf s \<Rightarrow> if s then x else y | XR b \<Rightarrow> XR (max a b)))"

definition x_exp :: "xr \<Rightarrow> xr" where
  "x_exp x = (case x of XNaN \<Rightarrow> XNaN | XInf s \<Rightarrow> if s then XR 0 else x | XR a \<Rightarrow> XR (exp a))"

definition exact :: "(xr, xr) arith" where
  "exact =
     \<lparr>d_add = x_add, d_sub = (\<lambda>x y. x_add x (x_neg y)), d_mul = x_mul, d_div = x_div,
      d_max = x_max, d_exp = x_exp, d_ninf = XInf True, d_sum0 = XR 0, d_zero = XR 0,
      d_one = XR 1,
      s_add = x_add, s_sub = (\<lambda>x y. x_add x (x_neg y)), s_mul = x_mul, s_div = x_div,
      s_max = x_max, s_exp = x_exp, s_ninf = XInf True, s_sum0 = XR 0, s_zero = XR 0,
      s_one = XR 1, s_pad = XR (- (10 ^ 38)), narrow = id, widen = id\<rparr>"

lemma exact_sel [exact_simps]:
  "d_add exact = x_add" "d_sub exact x y = x_add x (x_neg y)" "d_mul exact = x_mul"
  "d_div exact = x_div" "d_max exact = x_max" "d_exp exact = x_exp" "d_ninf exact = XInf True"
  "d_sum0 exact = XR 0" "d_zero exact = XR 0" "d_one exact = XR 1"
  "s_add exact = x_add" "s_sub exact x y = x_add x (x_neg y)" "s_mul exact = x_mul"
  "s_div exact = x_div" "s_max exact = x_max" "s_exp exact = x_exp" "s_ninf exact = XInf True"
  "s_sum0 exact = XR 0" "s_zero exact = XR 0" "s_one exact = XR 1" "s_pad exact = XR (- (10 ^ 38))"
  "narrow exact = id" "widen exact = id"
  by (simp_all add: exact_def)

lemma exact_finite [exact_simps]:
  "x_add (XR a) (XR b) = XR (a + b)" "x_neg (XR a) = XR (- a)"
  "x_mul (XR a) (XR b) = XR (a * b)" "b \<noteq> 0 \<Longrightarrow> x_div (XR a) (XR b) = XR (a / b)"
  "x_max (XR a) (XR b) = XR (max a b)" "x_max (XInf True) (XR a) = XR a" "x_exp (XR a) = XR (exp a)"
  by (auto simp: x_add_def x_neg_def x_mul_def x_div_def x_max_def x_exp_def split: xr.splits)

lemma foldl_x_max: "foldl x_max (XR a) (map XR xs) = XR (foldl max a xs)"
  by (induction xs arbitrary: a) (simp_all add: exact_simps)

lemma foldl_x_add: "foldl x_add (XR a) (map XR xs) = XR (a + sum_list xs)"
  by (induction xs arbitrary: a) (simp_all add: exact_simps add.assoc)

lemma foldl_max_eq_Max: "foldl max (a :: 'a :: linorder) xs = Max (insert a (set xs))"
proof (induction xs arbitrary: a)
  case (Cons x xs)
  then show ?case by (cases "xs = []") (simp_all add: max.assoc)
qed simp

lemma d_maximum_exact: "xs \<noteq> [] \<Longrightarrow> d_maximum exact (map XR xs) = XR (Max (set xs))"
  by (cases xs) (simp_all add: d_maximum_def exact_simps foldl_x_max foldl_max_eq_Max)

lemma s_maximum_exact: "xs \<noteq> [] \<Longrightarrow> s_maximum exact (map XR xs) = XR (Max (set xs))"
  by (cases xs) (simp_all add: s_maximum_def exact_simps foldl_x_max foldl_max_eq_Max)

lemma d_sum_exact: "d_sum exact (map XR xs) = XR (sum_list xs)"
  by (simp add: d_sum_def exact_simps foldl_x_add)

lemma s_sum_exact: "s_sum exact (map XR xs) = XR (sum_list xs)"
  by (simp add: s_sum_def exact_simps foldl_x_add)

end
