(* ===== verification/Json.thy ===== *)
theory Json
  imports Arith
begin

text \<open>
  JSON values as \<open>serde_json::Value\<close> has them, and the conversions the code asks of serde:
  \<open>as_f64\<close>, indexing, and the derived (de)serializers of the two message types. The text
  format itself (\<open>to_string\<close>, \<open>from_str\<close>, \<open>from_slice\<close>) is the library's and is a parameter
  of the model: the record \<open>serde\<close>. Also here: the UTF-8 check of \<open>String::from_utf8\<close>.
\<close>

datatype json =
    JNull
  | JBool bool
  | JPos nat
  | JNeg int
  | JFloat f64
  | JStr string
  | JArr "json list"
  | JObj "(string \<times> json) list"

record serde =
  to_text :: "json \<Rightarrow> string"
  from_text :: "string \<Rightarrow> json result"
  from_raw :: "bytes \<Rightarrow> json result"  \<comment> \<open>\<open>from_slice\<close>, which does not ask for UTF-8 as a whole\<close>

text \<open>An \<open>f64\<close> as a JSON number: non-finite values become \<open>null\<close>.\<close>

definition json_f64 :: "f64 \<Rightarrow> json" where
  "json_f64 x = (if finite_fp (f64_cls x) then JFloat x else JNull)"

definition json_f64s :: "f64 list \<Rightarrow> json" where
  "json_f64s xs = JArr (map json_f64 xs)"

text \<open>\<open>as f64\<close> on 64-bit integers.\<close>

definition f64_of_int :: "int \<Rightarrow> f64" where
  "f64_of_int i = of_nat (pack b64 (i < 0) (round_mag b64 (nat \<bar>i\<bar>) 1 0))"

fun as_f64 :: "json \<Rightarrow> f64 option" where
  "as_f64 (JPos n) = Some (f64_of_int (int n))"
| "as_f64 (JNeg i) = Some (f64_of_int i)"
| "as_f64 (JFloat x) = Some x"
| "as_f64 _ = None"

fun as_array :: "json \<Rightarrow> json list option" where
  "as_array (JArr xs) = Some xs"
| "as_array _ = None"

text \<open>
  \<open>value[key]\<close>: \<open>null\<close> for a missing key or a value that is no object; of a repeated key
  the last one counts.
\<close>

fun json_index :: "json \<Rightarrow> string \<Rightarrow> json" where
  "json_index (JObj kvs) k = (case map_of (rev kvs) k of None \<Rightarrow> JNull | Some v \<Rightarrow> v)"
| "json_index _ k = JNull"

text \<open>Deserializing \<open>Vec<f64>\<close>: an array of numbers; \<open>null\<close> is no number.\<close>

fun de_f64s :: "json list \<Rightarrow> f64 list result" where
  "de_f64s [] = Ok []"
| "de_f64s (v # vs) =
     (case as_f64 v of
        None \<Rightarrow> Err ''invalid type: expected f64''
      | Some x \<Rightarrow> (case de_f64s vs of Err e \<Rightarrow> Err e | Ok xs \<Rightarrow> Ok (x # xs)))"

definition de_vec_f64 :: "json \<Rightarrow> f64 list result" where
  "de_vec_f64 j =
     (case as_array j of None \<Rightarrow> Err ''invalid type: expected a sequence'' | Some vs \<Rightarrow> de_f64s vs)"

fun as_str :: "json \<Rightarrow> string option" where
  "as_str (JStr s) = Some s"
| "as_str _ = None"

fun as_usize :: "json \<Rightarrow> nat option" where
  "as_usize (JPos n) = Some n"
| "as_usize _ = None"

text \<open>
  A derived deserializer's field, from an object: missing, repeated or ill-typed is an error.
  Derived deserializers also accept an array with the fields in the order of the declaration; its
  elements are read with the same conversions.
\<close>

definition de_field :: "(json \<Rightarrow> 'a option) \<Rightarrow> (string \<times> json) list \<Rightarrow> string \<Rightarrow> 'a result" where
  "de_field conv kvs k =
     (case filter (\<lambda>kv. fst kv = k) kvs of
        [] \<Rightarrow> Err (''missing field '' @ k)
      | [kv] \<Rightarrow> (case conv (snd kv) of None \<Rightarrow> Err (''invalid type for '' @ k) | Some a \<Rightarrow> Ok a)
      | _ \<Rightarrow> Err (''duplicate field '' @ k))"

definition de_elem :: "(json \<Rightarrow> 'a option) \<Rightarrow> json \<Rightarrow> string \<Rightarrow> 'a result" where
  "de_elem conv v k = (case conv v of None \<Rightarrow> Err (''invalid type for '' @ k) | Some a \<Rightarrow> Ok a)"

lemma de_f64s_floats: "de_f64s (map JFloat xs) = Ok xs"
  by (induction xs) simp_all

lemma de_f64s_null: "JNull \<in> set vs \<Longrightarrow> \<exists>e. de_f64s vs = Err e"
  by (induction vs) (auto split: option.splits sum.splits)

lemma json_f64s_finite:
  "list_all (\<lambda>x. finite_fp (f64_cls x)) xs \<Longrightarrow> json_f64s xs = JArr (map JFloat xs)"
  by (simp add: json_f64s_def json_f64_def list_all_iff)

lemma de_vec_f64_finite:
  "list_all (\<lambda>x. finite_fp (f64_cls x)) xs \<Longrightarrow> de_vec_f64 (json_f64s xs) = Ok xs"
  by (simp add: de_vec_f64_def json_f64s_finite de_f64s_floats)

lemma de_vec_f64_nonfinite:
  "\<not> list_all (\<lambda>x. finite_fp (f64_cls x)) xs \<Longrightarrow> \<exists>e. de_vec_f64 (json_f64s xs) = Err e"
  using de_f64s_null [of "map json_f64 xs"]
  by (force simp: de_vec_f64_def json_f64s_def json_f64_def list_all_iff)

section \<open>UTF-8\<close>

definition is_cont :: "nat \<Rightarrow> bool" where
  "is_cont b \<longleftrightarrow> 0x80 \<le> b \<and> b \<le> 0xBF"

fun utf8_valid :: "nat list \<Rightarrow> bool" where
  "utf8_valid [] = True"
| "utf8_valid (b # bs) =
     (if b < 0x80 then utf8_valid bs
      else if 0xC2 \<le> b \<and> b \<le> 0xDF then
        (case bs of c # r \<Rightarrow> is_cont c \<and> utf8_valid r | _ \<Rightarrow> False)
      else if 0xE0 \<le> b \<and> b \<le> 0xEF then
        (case bs of c # d # r \<Rightarrow>
           is_cont c \<and> (b = 0xE0 \<longrightarrow> 0xA0 \<le> c) \<and> (b = 0xED \<longrightarrow> c \<le> 0x9F) \<and> is_cont d \<and> utf8_valid r
         | _ \<Rightarrow> False)
      else if 0xF0 \<le> b \<and> b \<le> 0xF4 then
        (case bs of c # d # e # r \<Rightarrow>
           is_cont c \<and> (b = 0xF0 \<longrightarrow> 0x90 \<le> c) \<and> (b = 0xF4 \<longrightarrow> c \<le> 0x8F) \<and>
           is_cont d \<and> is_cont e \<and> utf8_valid r
         | _ \<Rightarrow> False)
      else False)"

definition from_utf8 :: "bytes \<Rightarrow> string result" where
  "from_utf8 bs =
     (if utf8_valid (map unat bs) then Ok (of_bytes bs) else Err ''invalid utf-8 sequence'')"

lemma from_utf8_as_bytes: "utf8_valid (map of_char t) \<Longrightarrow> from_utf8 (as_bytes t) = Ok t"
proof -
  have "map unat (as_bytes t) = map of_char t"
    by (simp add: as_bytes_def unat_of_nat comp_def)
  then show "utf8_valid (map of_char t) \<Longrightarrow> from_utf8 (as_bytes t) = Ok t"
    by (simp add: from_utf8_def)
qed

lemma utf8_valid_ascii: "list_all (\<lambda>b. b < 0x80) bs \<Longrightarrow> utf8_valid bs"
  by (induction bs) simp_all

text \<open>
  Text cut after \<open>n\<close> bytes is text exactly when the next byte begins a character, which is what
  Rust's slicing of a \<open>str\<close> checks.
\<close>

lemma utf8_cut:
  "utf8_valid bs \<Longrightarrow> n < length bs \<Longrightarrow> utf8_valid (take n bs) \<longleftrightarrow> \<not> is_cont (bs ! n)"
proof (induction bs arbitrary: n rule: utf8_valid.induct)
  case (2 b bs)
  note ok = 2(5) and n = 2(6)
  show ?case
  proof (cases n)
    case 0
    with ok show ?thesis by (auto simp: is_cont_def split: if_splits)
  next
    case k: (Suc k)
    consider "b < 0x80" | "\<not> b < 0x80" "0xC2 \<le> b \<and> b \<le> 0xDF"
      | "\<not> b < 0x80" "\<not> (0xC2 \<le> b \<and> b \<le> 0xDF)" "0xE0 \<le> b \<and> b \<le> 0xEF"
      | "\<not> b < 0x80" "\<not> (0xC2 \<le> b \<and> b \<le> 0xDF)" "\<not> (0xE0 \<le> b \<and> b \<le> 0xEF)" "0xF0 \<le> b \<and> b \<le> 0xF4"
      using ok by (auto split: if_splits)
    then show ?thesis
    proof cases
      case 1
      with 2(1) [OF 1, of k] ok n k show ?thesis by simp
    next
      case c: 2
      then obtain x r where r: "bs = x # r" "is_cont x" "utf8_valid r" using ok by (auto split: list.splits)
      show ?thesis
        using 2(2) [OF c r(1) r(3)] c r n by (cases k) (simp_all add: k)
    next
      case c: 3
      then obtain x y r where r: "bs = x # y # r" "is_cont x" "is_cont y" "utf8_valid r"
        "b = 0xE0 \<longrightarrow> 0xA0 \<le> x" "b = 0xED \<longrightarrow> x \<le> 0x9F"
        using ok by (auto split: list.splits)
      consider "k = 0" | "k = 1" | j where "k = Suc (Suc j)" by (metis One_nat_def not0_implies_Suc)
      then show ?thesis
        using 2(3) [OF c r(1) refl r(4)] c r n by cases (simp_all add: k)
    next
      case c: 4
      then obtain x y z r where r: "bs = x # y # z # r" "is_cont x" "is_cont y" "is_cont z" "utf8_valid r"
        "b = 0xF0 \<longrightarrow> 0x90 \<le> x" "b = 0xF4 \<longrightarrow> x \<le> 0x8F"
        using ok by (auto split: list.splits)
      consider "k = 0" | "k = 1" | "k = 2" | j where "k = Suc (Suc (Suc j))"
        by (metis One_nat_def Suc_1 not0_implies_Suc)
      then show ?thesis
        using 2(4) [OF c r(1) refl refl r(5)] c r n by cases (simp_all add: k)
    qed
  qed
qed simp

section \<open>The text format as a contract\<close>

text \<open>
  What the code relies on: printing a value and parsing the text gives the value back, except
  that a float comes back as \<open>rt\<close> of it (serde\_json parses floats with best-effort precision
  unless its feature \<open>float_roundtrip\<close> is on), the text is UTF-8, and parsing text as text or as
  its bytes is the same.
\<close>

definition utf8_string :: "string \<Rightarrow> bool" where
  "utf8_string s \<longleftrightarrow> utf8_valid (map of_char s)"

fun json_ok :: "json \<Rightarrow> bool" where
  "json_ok JNull = True"
| "json_ok (JBool b) = True"
| "json_ok (JPos n) = (n < 2 ^ 64)"
| "json_ok (JNeg i) = (- (2 ^ 63) \<le> i \<and> i < 0)"
| "json_ok (JFloat x) = finite_fp (f64_cls x)"
| "json_ok (JStr s) = utf8_string s"
| "json_ok (JArr vs) = list_all json_ok vs"
| "json_ok (JObj kvs) = (distinct (map fst kvs) \<and> list_all (\<lambda>kv. utf8_string (fst kv) \<and> json_ok (snd kv)) kvs)"

fun json_map :: "(f64 \<Rightarrow> f64) \<Rightarrow> json \<Rightarrow> json" where
  "json_map rt (JFloat x) = JFloat (rt x)"
| "json_map rt (JArr vs) = JArr (map (json_map rt) vs)"
| "json_map rt (JObj kvs) = JObj (map (\<lambda>kv. (fst kv, json_map rt (snd kv))) kvs)"
| "json_map rt j = j"

locale serde_codec =
  fixes J :: serde and rt :: "f64 \<Rightarrow> f64"
  assumes roundtrip: "json_ok j \<Longrightarrow> from_text J (to_text J j) = Ok (json_map rt j)"
    and text_utf8: "json_ok j \<Longrightarrow> utf8_string (to_text J j)"
    and raw_text: "utf8_string t \<Longrightarrow> from_raw J (as_bytes t) = from_text J t"
    and rt_finite: "finite_fp (f64_cls x) \<Longrightarrow> finite_fp (f64_cls (rt x))"
begin

lemma json_f64s_text:
  "from_text J (to_text J (json_f64s xs)) = Ok (JArr (map (\<lambda>x. json_map rt (json_f64 x)) xs))"
proof -
  have "json_ok (json_f64s xs)"
    by (auto simp: json_f64s_def json_f64_def list_all_iff)
  from roundtrip [OF this] show ?thesis by (simp add: json_f64s_def)
qed

lemma vec_f64_text:
  assumes "list_all (\<lambda>x. finite_fp (f64_cls x)) xs"
  shows "from_text J (to_text J (json_f64s xs)) = Ok (JArr (map (\<lambda>x. JFloat (rt x)) xs))"
  unfolding json_f64s_text using assms by (simp add: json_f64_def list_all_iff)

lemma roundtrip_raw: "json_ok j \<Longrightarrow> from_raw J (as_bytes (to_text J j)) = Ok (json_map rt j)"
  using raw_text [OF text_utf8] roundtrip by simp

lemma utf8_text: "json_ok j \<Longrightarrow> from_utf8 (as_bytes (to_text J j)) = Ok (to_text J j)"
  using text_utf8 by (simp add: utf8_string_def from_utf8_as_bytes)

end

end
