(* ===== verification/Redis.thy ===== *)
theory Redis
  imports Config Json
begin

text \<open>
  The Redis client: the commands of the server the code uses, as a parameter, with the laws the
  code relies on as a locale; \<open>RedisManager\<close> (\<open>gateway-rs/src/redis_manager.rs\<close>) and the
  cache manager (\<open>gateway-rs/src/cache_manager.rs\<close>) on top of it.

  The state \<open>'s\<close> is the whole outside world. Every command is atomic on the server; the state
  it returns is the world when the caller runs again, so whatever other processes did in the
  meantime is part of the step. What they may do to the keyspace is the relation \<open>rely\<close>.
\<close>

section \<open>The server\<close>

record 's redis =
  r_get :: "string \<Rightarrow> 's \<Rightarrow> bytes option result \<times> 's"
  r_set :: "string \<Rightarrow> bytes \<Rightarrow> 's \<Rightarrow> unit result \<times> 's"
  r_set_ex :: "string \<Rightarrow> bytes \<Rightarrow> nat \<Rightarrow> 's \<Rightarrow> unit result \<times> 's"
  r_exists :: "string \<Rightarrow> 's \<Rightarrow> bool result \<times> 's"
  r_ttl :: "string \<Rightarrow> 's \<Rightarrow> int result \<times> 's"
  r_keys :: "string \<Rightarrow> 's \<Rightarrow> string list result \<times> 's"
  r_publish :: "string \<Rightarrow> bytes \<Rightarrow> 's \<Rightarrow> unit result \<times> 's"

type_synonym keyspace = "string \<Rightarrow> bytes option"

text \<open>
  A write that reports success has happened; one that reports an error may or may not have. An
  expiry of zero seconds is refused. \<open>TTL\<close> answers -2 for a missing key. A property of the
  keyspace is stable if no other process can end it.
\<close>

definition wrote :: "unit result \<Rightarrow> keyspace \<Rightarrow> string \<Rightarrow> bytes \<Rightarrow> keyspace \<Rightarrow> bool" where
  "wrote r m k v m' \<longleftrightarrow> (if r = Ok () then m' = m(k \<mapsto> v) else m' = m \<or> m' = m(k \<mapsto> v))"

definition stable :: "(keyspace \<Rightarrow> keyspace \<Rightarrow> bool) \<Rightarrow> (keyspace \<Rightarrow> bool) \<Rightarrow> bool" where
  "stable rely I \<longleftrightarrow> (\<forall>m m'. I m \<longrightarrow> rely m m' \<longrightarrow> I m')"

lemma stableD: "stable rely I \<Longrightarrow> I m \<Longrightarrow> rely m m' \<Longrightarrow> I m'"
  by (auto simp: stable_def)

locale redis_server =
  fixes R :: "'s redis" and view :: "'s \<Rightarrow> keyspace" and rely :: "keyspace \<Rightarrow> keyspace \<Rightarrow> bool"
  assumes rely_refl: "rely m m"
    and rely_trans: "rely m m' \<Longrightarrow> rely m' m'' \<Longrightarrow> rely m m''"
    and get_law: "r_get R k s = (g, s') \<Longrightarrow>
      (\<forall>v. g = Ok v \<longrightarrow> v = view s k) \<and> rely (view s) (view s')"
    and set_law: "r_set R k w s = (r, s') \<Longrightarrow> \<exists>m. wrote r (view s) k w m \<and> rely m (view s')"
    and set_ex_law: "r_set_ex R k w ttl s = (r, s') \<Longrightarrow>
      (ttl = 0 \<longrightarrow> r \<noteq> Ok ()) \<and> (\<exists>m. wrote r (view s) k w m \<and> rely m (view s'))"
    and exists_law: "r_exists R k s = (e, s') \<Longrightarrow>
      (\<forall>b. e = Ok b \<longrightarrow> b = (view s k \<noteq> None)) \<and> rely (view s) (view s')"
    and ttl_law: "r_ttl R k s = (t, s') \<Longrightarrow>
      (\<forall>i. t = Ok i \<longrightarrow> (i = - 2 \<longleftrightarrow> view s k = None)) \<and> rely (view s) (view s')"
    and keys_law: "r_keys R pat s = (ks, s') \<Longrightarrow>
      (\<forall>l. ks = Ok l \<longrightarrow> distinct l \<and> set l \<subseteq> dom (view s)) \<and> rely (view s) (view s')"
    and publish_law: "r_publish R c w s = (r, s') \<Longrightarrow> rely (view s) (view s')"

section \<open>RedisManager: low-level helpers\<close>

definition set_ex :: "'s redis \<Rightarrow> string \<Rightarrow> string \<Rightarrow> nat \<Rightarrow> 's \<Rightarrow> unit result \<times> 's" where
  "set_ex R key value ttl s = r_set_ex R key (as_bytes value) ttl s"

definition get_bytes :: "'s redis \<Rightarrow> string \<Rightarrow> 's \<Rightarrow> bytes option result \<times> 's" where
  "get_bytes R key s = r_get R key s"

definition get_str :: "'s redis \<Rightarrow> string \<Rightarrow> 's \<Rightarrow> string option result \<times> 's" where
  "get_str R key s =
     (case r_get R key s of
        (Err e, s') \<Rightarrow> (Err e, s')
      | (Ok None, s') \<Rightarrow> (Ok None, s')
      | (Ok (Some b), s') \<Rightarrow>
          ((case from_utf8 b of Err e \<Rightarrow> Err e | Ok t \<Rightarrow> Ok (Some t)), s'))"

definition key_exists :: "'s redis \<Rightarrow> string \<Rightarrow> 's \<Rightarrow> bool \<times> 's" where
  "key_exists R key s =
     (case r_exists R key s of (Err _, s') \<Rightarrow> (False, s') | (Ok b, s') \<Rightarrow> (b, s'))"

definition ttl_of :: "'s redis \<Rightarrow> string \<Rightarrow> 's \<Rightarrow> int \<times> 's" where
  "ttl_of R key s = (case r_ttl R key s of (Err _, s') \<Rightarrow> (- 1, s') | (Ok t, s') \<Rightarrow> (t, s'))"

definition keys_by_pattern :: "'s redis \<Rightarrow> string \<Rightarrow> 's \<Rightarrow> string list \<times> 's" where
  "keys_by_pattern R pat s =
     (case r_keys R pat s of (Err _, s') \<Rightarrow> ([], s') | (Ok ks, s') \<Rightarrow> (ks, s'))"

section \<open>RedisManager: domain operations\<close>

record job_metadata =
  jm_job_id :: string
  jm_task_type :: string
  jm_total_slices :: nat
  jm_created_at :: nat
  jm_status :: string

definition default_status :: string where
  "default_status = ''submitted''"

definition metadata_to_json :: "job_metadata \<Rightarrow> json" where
  "metadata_to_json m =
     JObj [(''job_id'', JStr (jm_job_id m)), (''task_type'', JStr (jm_task_type m)),
       (''total_slices'', JPos (jm_total_slices m)), (''created_at'', JPos (jm_created_at m)),
       (''status'', JStr (jm_status m))]"

fun metadata_of_json :: "json \<Rightarrow> job_metadata result" where
  "metadata_of_json (JObj kvs) =
     (case de_field as_str kvs ''job_id'' of Err e \<Rightarrow> Err e
      | Ok job_id \<Rightarrow> (case de_field as_str kvs ''task_type'' of Err e \<Rightarrow> Err e
      | Ok task_type \<Rightarrow> (case de_field as_usize kvs ''total_slices'' of Err e \<Rightarrow> Err e
      | Ok total_slices \<Rightarrow> (case de_field as_usize kvs ''created_at'' of Err e \<Rightarrow> Err e
      | Ok created_at \<Rightarrow>
          (case (if filter (\<lambda>kv. fst kv = ''status'') kvs = [] then Ok default_status
                 else de_field as_str kvs ''status'') of Err e \<Rightarrow> Err e
           | Ok status \<Rightarrow> Ok \<lparr>jm_job_id = job_id, jm_task_type = task_type,
               jm_total_slices = total_slices, jm_created_at = created_at,
               jm_status = status\<rparr>)))))"
| "metadata_of_json (JArr (j # t # n # c # rest)) =
     (case de_elem as_str j ''job_id'' of Err e \<Rightarrow> Err e
      | Ok job_id \<Rightarrow> (case de_elem as_str t ''task_type'' of Err e \<Rightarrow> Err e
      | Ok task_type \<Rightarrow> (case de_elem as_usize n ''total_slices'' of Err e \<Rightarrow> Err e
      | Ok total_slices \<Rightarrow> (case de_elem as_usize c ''created_at'' of Err e \<Rightarrow> Err e
      | Ok created_at \<Rightarrow>
          (case (case rest of [] \<Rightarrow> Ok default_status | [v] \<Rightarrow> de_elem as_str v ''status''
                 | _ \<Rightarrow> Err ''trailing characters'') of Err e \<Rightarrow> Err e
           | Ok status \<Rightarrow> Ok \<lparr>jm_job_id = job_id, jm_task_type = task_type,
               jm_total_slices = total_slices, jm_created_at = created_at,
               jm_status = status\<rparr>)))))"
| "metadata_of_json _ = Err ''invalid type or length: expected struct JobMetadata''"

definition set_job_metadata ::
  "'s redis \<Rightarrow> serde \<Rightarrow> environment \<Rightarrow> string \<Rightarrow> job_metadata \<Rightarrow> 's \<Rightarrow> unit result \<times> 's" where
  "set_job_metadata R J env job_id meta s =
     (let key = metadata_key job_id; value = to_text J (metadata_to_json meta)
      in set_ex R key value (metadata_ttl env) s)"

definition get_job_metadata ::
  "'s redis \<Rightarrow> serde \<Rightarrow> string \<Rightarrow> 's \<Rightarrow> job_metadata option result \<times> 's" where
  "get_job_metadata R J job_id s =
     (case get_str R (metadata_key job_id) s of
        (Err e, s') \<Rightarrow> (Err e, s')
      | (Ok None, s') \<Rightarrow> (Ok None, s')
      | (Ok (Some t), s') \<Rightarrow>
          ((case from_text J t of
              Err e \<Rightarrow> Err e
            | Ok j \<Rightarrow> (case metadata_of_json j of Err e \<Rightarrow> Err e | Ok m \<Rightarrow> Ok (Some m))), s'))"

text \<open>\<open>now\<close> is the system time in seconds, read by the operation itself.\<close>

definition update_progress ::
  "'s redis \<Rightarrow> serde \<Rightarrow> environment \<Rightarrow> ('s \<Rightarrow> nat) \<Rightarrow> string \<Rightarrow> string \<Rightarrow> 's \<Rightarrow> unit result \<times> 's" where
  "update_progress R J env now job_id status s =
     (let key = progress_key job_id;
          value = to_text J (JObj [(''job_id'', JStr job_id), (''status'', JStr status),
                    (''updated_at'', JPos (now s))])
      in set_ex R key value (progress_ttl env) s)"

definition store_final_result ::
  "'s redis \<Rightarrow> serde \<Rightarrow> environment \<Rightarrow> ('s \<Rightarrow> nat) \<Rightarrow> string \<Rightarrow> string \<Rightarrow> 's \<Rightarrow> unit result \<times> 's" where
  "store_final_result R J env now job_id result_json s =
     (case set_ex R (result_key job_id) result_json (result_ttl env) s of
        (Err e, s') \<Rightarrow> (Err e, s')
      | (Ok _, s') \<Rightarrow> update_progress R J env now job_id ''completed'' s')"

fun count_slices :: "'s redis \<Rightarrow> string \<Rightarrow> nat list \<Rightarrow> nat \<Rightarrow> 's \<Rightarrow> nat \<times> 's" where
  "count_slices R job_id [] count s = (count, s)"
| "count_slices R job_id (i # is) count s =
     (case key_exists R (slice_key job_id i) s of
        (present, s') \<Rightarrow> count_slices R job_id is (if present then count + 1 else count) s')"

definition get_completed_slice_count :: "'s redis \<Rightarrow> string \<Rightarrow> nat \<Rightarrow> 's \<Rightarrow> nat \<times> 's" where
  "get_completed_slice_count R job_id total_slices s =
     count_slices R job_id [0..<total_slices] 0 s"

section \<open>Cache manager\<close>

record cache_stats =
  total_keys :: nat
  result_keys :: nat
  metadata_keys :: nat
  progress_keys :: nat
  expired_keys :: nat

fun count_expired :: "'s redis \<Rightarrow> string list \<Rightarrow> nat \<Rightarrow> 's \<Rightarrow> nat \<times> 's" where
  "count_expired R [] expired s = (expired, s)"
| "count_expired R (key # ks) expired s =
     (case ttl_of R key s of
        (t, s') \<Rightarrow> count_expired R ks (if t = - 2 then expired + 1 else expired) s')"

definition run_cleanup :: "'s redis \<Rightarrow> 's \<Rightarrow> cache_stats \<times> 's" where
  "run_cleanup R s =
     (case keys_by_pattern R ''result:*'' s of
        (rk, s1) \<Rightarrow> (case keys_by_pattern R ''metadata:*'' s1 of
        (mk, s2) \<Rightarrow> (case keys_by_pattern R ''progress:*'' s2 of
        (pk, s3) \<Rightarrow> (case count_expired R (rk @ mk @ pk) 0 s3 of
        (expired, s4) \<Rightarrow>
          (\<lparr>total_keys = length rk + length mk + length pk, result_keys = length rk,
            metadata_keys = length mk, progress_keys = length pk, expired_keys = expired\<rparr>, s4)))))"

text \<open>
  The background task: sleep, clean up, for ever. \<open>sleep\<close> is the runtime's timer (seconds);
  the run is cut after \<open>rounds\<close> iterations, which is all a caller can ever observe of it.
\<close>

fun cache_manager_rounds :: "('s \<Rightarrow> nat \<Rightarrow> 's) \<Rightarrow> 's redis \<Rightarrow> nat \<Rightarrow> nat \<Rightarrow> 's \<Rightarrow> cache_stats list \<times> 's" where
  "cache_manager_rounds sleep R interval_minutes 0 s = ([], s)"
| "cache_manager_rounds sleep R interval_minutes (Suc rounds) s =
     (case run_cleanup R (sleep s (interval_minutes * 60 mod 2 ^ 64)) of
        (stats, s') \<Rightarrow>
          (case cache_manager_rounds sleep R interval_minutes rounds s' of
             (rest, s'') \<Rightarrow> (stats # rest, s'')))"

section \<open>What the operations do to the keyspace\<close>

lemma wrote_other: "wrote r m k v m' \<Longrightarrow> k' \<noteq> k \<Longrightarrow> m' k' = m k'"
  by (auto simp: wrote_def split: if_splits)

lemma wrote_ok: "wrote (Ok ()) m k v m' \<longleftrightarrow> m' = m(k \<mapsto> v)"
  by (simp add: wrote_def)

text \<open>Commands that read succeed; the metadata and the result of a job stay, its slices only appear.\<close>

definition reads_up :: "'s redis \<Rightarrow> bool" where
  "reads_up R \<longleftrightarrow> (\<forall>k s. (\<exists>v s'. r_get R k s = (Ok v, s')) \<and> (\<exists>b s'. r_exists R k s = (Ok b, s')))"

definition keeps_answer :: "string \<Rightarrow> keyspace \<Rightarrow> keyspace \<Rightarrow> bool" where
  "keeps_answer job m m' \<longleftrightarrow>
     m' (metadata_key job) = m (metadata_key job) \<and> m' (result_key job) = m (result_key job)"

definition keeps_slices :: "string \<Rightarrow> keyspace \<Rightarrow> keyspace \<Rightarrow> bool" where
  "keeps_slices job m m' \<longleftrightarrow> (\<forall>i. m (slice_key job i) \<noteq> None \<longrightarrow> m' (slice_key job i) \<noteq> None)"

lemma keeps_quiet [simp]: "keeps_answer job m m" "keeps_slices job m m"
  by (simp_all add: keeps_answer_def keeps_slices_def)

lemma length_filter_upt: "length (filter P [0..<n]) = card {i. i < n \<and> P i}"
  by (auto simp: length_filter_conv_card intro!: arg_cong [where f = card])

context redis_server
begin

lemma get_str_law:
  assumes "get_str R k s = (r, s')"
  shows "rely (view s) (view s')" and "r = Ok None \<Longrightarrow> view s k = None"
    and "r = Ok (Some t) \<Longrightarrow> \<exists>b. view s k = Some b \<and> from_utf8 b = Ok t"
proof -
  obtain g s1 where g: "r_get R k s = (g, s1)" by (cases "r_get R k s")
  note law = get_law [OF g]
  from assms g have s': "s' = s1"
    by (auto simp: get_str_def split: sum.splits option.splits)
  with law show "rely (view s) (view s')" by simp
  from assms g law show "r = Ok None \<Longrightarrow> view s k = None"
    and "r = Ok (Some t) \<Longrightarrow> \<exists>b. view s k = Some b \<and> from_utf8 b = Ok t"
    by (auto simp: get_str_def split: sum.splits option.splits)
qed

lemma key_exists_rely: "key_exists R k s = (b, s') \<Longrightarrow> rely (view s) (view s')"
  by (auto simp: key_exists_def split: sum.splits prod.splits dest: exists_law)

lemma key_exists_true: "key_exists R k s = (True, s') \<Longrightarrow> view s k \<noteq> None"
  by (auto simp: key_exists_def split: sum.splits prod.splits dest!: exists_law)

lemma ttl_of_rely: "ttl_of R k s = (t, s') \<Longrightarrow> rely (view s) (view s')"
  by (auto simp: ttl_of_def split: sum.splits prod.splits dest: ttl_law)

lemma ttl_of_missing: "ttl_of R k s = (- 2, s') \<Longrightarrow> view s k = None"
  by (auto simp: ttl_of_def split: sum.splits prod.splits dest: ttl_law)

lemma keys_by_pattern_law:
  "keys_by_pattern R pat s = (ks, s') \<Longrightarrow> distinct ks \<and> set ks \<subseteq> dom (view s) \<and> rely (view s) (view s')"
  by (auto simp: keys_by_pattern_def split: sum.splits prod.splits dest!: keys_law)

lemma set_ex_wrote:
  "set_ex R k t ttl s = (r, s') \<Longrightarrow> \<exists>m. wrote r (view s) k (as_bytes t) m \<and> rely m (view s')"
  by (auto simp: set_ex_def dest!: set_ex_law)

lemma set_ex_zero_ttl: "set_ex R k t 0 s = (r, s') \<Longrightarrow> \<exists>e. r = Err e"
  by (cases r) (auto simp: set_ex_def dest!: set_ex_law)

subsection \<open>Progress: how many slices are there\<close>

lemma count_slices_bounds:
  assumes grow: "\<forall>m m'. rely m m' \<longrightarrow> keeps_slices job m m'"
  shows "count_slices R job is c s = (n, s') \<Longrightarrow>
    n \<le> c + length (filter (\<lambda>i. view s' (slice_key job i) \<noteq> None) is) \<and> rely (view s) (view s')"
proof (induction "is" arbitrary: c s)
  case (Cons i "is")
  obtain b s1 where k: "key_exists R (slice_key job i) s = (b, s1)"
    by (cases "key_exists R (slice_key job i) s")
  have run: "count_slices R job is (if b then c + 1 else c) s1 = (n, s')"
    using Cons.prems k by simp
  note IH = Cons.IH [OF run]
  have r1: "rely (view s) (view s1)" using k by (rule key_exists_rely)
  have "view s' (slice_key job i) \<noteq> None" if b
    using key_exists_true [of "slice_key job i" s s1] k that
      grow [rule_format, OF conjunct2 [OF IH]] grow [rule_format, OF r1]
    by (simp add: keeps_slices_def)
  with IH rely_trans [OF r1] show ?case by (auto split: if_splits)
qed (simp add: rely_refl)

lemma count_slices_exact:
  assumes grow: "\<forall>m m'. rely m m' \<longrightarrow> keeps_slices job m m'"
    and up: "reads_up R"
    and "count_slices R job is c s = (n, s')"
  shows "c + length (filter (\<lambda>i. view s (slice_key job i) \<noteq> None) is) \<le> n"
  using assms(3)
proof (induction "is" arbitrary: c s)
  case (Cons i "is")
  obtain b s1 where k: "r_exists R (slice_key job i) s = (Ok b, s1)"
    using up unfolding reads_up_def by blast
  note law = exists_law [OF k]
  have run: "count_slices R job is (if b then c + 1 else c) s1 = (n, s')"
    using Cons.prems k by (simp add: key_exists_def)
  have "length (filter (\<lambda>i. view s (slice_key job i) \<noteq> None) is) \<le>
      length (filter (\<lambda>i. view s1 (slice_key job i) \<noteq> None) is)"
    using grow [rule_format, OF conjunct2 [OF law]]
    by (intro length_filter_mono) (simp add: keeps_slices_def)
  with Cons.IH [OF run] law show ?case by (auto split: if_splits)
qed simp

subsection \<open>The cache manager only reads\<close>

lemma count_expired_law:
  "count_expired R ks c s = (n, s') \<Longrightarrow> rely (view s) (view s') \<and> c \<le> n \<and> n \<le> c + length ks"
proof (induction ks arbitrary: c s)
  case (Cons k ks)
  obtain t s1 where t: "ttl_of R k s = (t, s1)" by (cases "ttl_of R k s")
  have "count_expired R ks (if t = - 2 then c + 1 else c) s1 = (n, s')"
    using Cons.prems t by simp
  from Cons.IH [OF this] show ?case
    using rely_trans [OF ttl_of_rely [OF t]] by (auto split: if_splits)
qed (simp add: rely_refl)

lemma run_cleanup_law:
  assumes "run_cleanup R s = (st, s')"
  shows "rely (view s) (view s')" and "expired_keys st \<le> total_keys st"
    and "total_keys st = result_keys st + metadata_keys st + progress_keys st"
proof -
  obtain rk s1 where 1: "keys_by_pattern R ''result:*'' s = (rk, s1)"
    by (cases "keys_by_pattern R ''result:*'' s")
  obtain mk s2 where 2: "keys_by_pattern R ''metadata:*'' s1 = (mk, s2)"
    by (cases "keys_by_pattern R ''metadata:*'' s1")
  obtain pk s3 where 3: "keys_by_pattern R ''progress:*'' s2 = (pk, s3)"
    by (cases "keys_by_pattern R ''progress:*'' s2")
  obtain n s4 where 4: "count_expired R (rk @ mk @ pk) 0 s3 = (n, s4)"
    by (cases "count_expired R (rk @ mk @ pk) 0 s3")
  have st: "st = \<lparr>total_keys = length rk + length mk + length pk, result_keys = length rk,
      metadata_keys = length mk, progress_keys = length pk, expired_keys = n\<rparr>" "s' = s4"
    using assms by (simp_all add: run_cleanup_def 1 2 3 4)
  show "rely (view s) (view s')"
    using keys_by_pattern_law [OF 1] keys_by_pattern_law [OF 2] keys_by_pattern_law [OF 3]
      count_expired_law [OF 4] st rely_trans by metis
  show "expired_keys st \<le> total_keys st"
    using count_expired_law [OF 4] st by simp
  show "total_keys st = result_keys st + metadata_keys st + progress_keys st"
    by (simp add: st)
qed

end
end
