(* ===== verification/Notifier.thy ===== *)
theory Notifier
  imports Prelude
begin

text \<open>
  \<open>SliceNotifier\<close> (\<open>gateway-rs/src/slice_notifier.rs\<close>): the table of waiting jobs and the
  watch channel of each. A channel is a number; its counter is bumped by every notification and
  the channel is closed when the table drops its sender. The state is what the gateway's
  requests and the subscriber task share.
\<close>

record notifier =
  jobs :: "string \<Rightarrow> nat option"
  counts :: "nat \<Rightarrow> nat"
  next_chan :: nat

definition notifier_new :: notifier where
  "notifier_new = \<lparr>jobs = Map.empty, counts = (\<lambda>_. 0), next_chan = 0\<rparr>"

text \<open>A fresh channel replaces whatever the table held for the job.\<close>

definition register_job :: "string \<Rightarrow> notifier \<Rightarrow> nat \<times> notifier" where
  "register_job job_id N =
     (let c = next_chan N
      in (c, N\<lparr>jobs := (jobs N)(job_id \<mapsto> c), counts := (counts N)(c := 0), next_chan := c + 1\<rparr>))"

definition unregister_job :: "string \<Rightarrow> notifier \<Rightarrow> notifier" where
  "unregister_job job_id N = N\<lparr>jobs := (jobs N)(job_id := None)\<rparr>"

text \<open>The subscriber's reaction to one pub/sub message on \<open>channel\<close>.\<close>

definition strip_prefix :: "string \<Rightarrow> string \<Rightarrow> string option" where
  "strip_prefix pre s =
     (if take (length pre) s = pre then Some (drop (length pre) s) else None)"

definition done_prefix :: string where
  "done_prefix = ''slice_done:''"

definition on_message :: "string \<Rightarrow> notifier \<Rightarrow> notifier" where
  "on_message channel N =
     (case strip_prefix done_prefix channel of
        None \<Rightarrow> N
      | Some job_id \<Rightarrow> (case jobs N job_id of
          None \<Rightarrow> N
        | Some c \<Rightarrow> N\<lparr>counts := (counts N)(c := (counts N c + 1) mod 2 ^ 64)\<rparr>))"

text \<open>
  The subscriber task: one connection after the other. What the library delivers is the
  script: a failed connection or subscription, or the messages of a connection until it ends.
\<close>

datatype connection = ConnectFailed | SubscribeFailed | Messages "string list"

fun subscriber_loop :: "connection list \<Rightarrow> notifier \<Rightarrow> notifier" where
  "subscriber_loop [] N = N"
| "subscriber_loop (ConnectFailed # cs) N = subscriber_loop cs N"
| "subscriber_loop (SubscribeFailed # cs) N = subscriber_loop cs N"
| "subscriber_loop (Messages ms # cs) N = subscriber_loop cs (fold on_message ms N)"

text \<open>A receiver is closed once the table no longer holds its channel's sender.\<close>

definition closed :: "nat \<Rightarrow> notifier \<Rightarrow> bool" where
  "closed c N \<longleftrightarrow> (\<forall>j. jobs N j \<noteq> Some c)"

section \<open>Invariant\<close>

text \<open>Channels are handed out once: distinct jobs have distinct ones, all below the next.\<close>

definition notifier_inv :: "notifier \<Rightarrow> bool" where
  "notifier_inv N \<longleftrightarrow>
     (\<forall>j c. jobs N j = Some c \<longrightarrow> c < next_chan N) \<and>
     (\<forall>j j' c. jobs N j = Some c \<longrightarrow> jobs N j' = Some c \<longrightarrow> j = j')"

lemma notifier_inv_new: "notifier_inv notifier_new"
  by (simp add: notifier_inv_def notifier_new_def)

lemma notifier_inv_register: "notifier_inv N \<Longrightarrow> notifier_inv (snd (register_job j N))"
  by (force simp: notifier_inv_def register_job_def Let_def less_Suc_eq split: if_splits)

lemma notifier_inv_unregister: "notifier_inv N \<Longrightarrow> notifier_inv (unregister_job j N)"
  by (auto simp: notifier_inv_def unregister_job_def split: if_splits)

lemma notifier_inv_message: "notifier_inv N \<Longrightarrow> notifier_inv (on_message ch N)"
  by (auto simp: notifier_inv_def on_message_def split: option.splits)

lemma jobs_on_message [simp]: "jobs (on_message ch N) = jobs N"
  by (simp add: on_message_def split: option.splits)

lemma next_chan_on_message [simp]: "next_chan (on_message ch N) = next_chan N"
  by (simp add: on_message_def split: option.splits)

lemma subscriber_loop_frame: "jobs (subscriber_loop cs N) = jobs N \<and> next_chan (subscriber_loop cs N) = next_chan N"
proof (induction cs N rule: subscriber_loop.induct)
  case (4 ms cs N)
  have "jobs (fold on_message ms N) = jobs N \<and> next_chan (fold on_message ms N) = next_chan N"
    by (induction ms arbitrary: N) simp_all
  with 4 show ?case by simp
qed simp_all

lemma strip_prefix_append [simp]: "strip_prefix pre (pre @ s) = Some s"
  by (simp add: strip_prefix_def)

text \<open>A notification for a registered job bumps its channel, and no other.\<close>

lemma on_message_counts:
  assumes "notifier_inv N" "jobs N j = Some c" "counts N c + 1 < 2 ^ 64"
  shows "counts (on_message (done_prefix @ j) N) c = counts N c + 1"
    and "jobs N j' = Some c' \<Longrightarrow> j' \<noteq> j \<Longrightarrow> counts (on_message (done_prefix @ j) N) c' = counts N c'"
proof -
  have m: "on_message (done_prefix @ j) N =
      N\<lparr>counts := (counts N)(c := (counts N c + 1) mod 2 ^ 64)\<rparr>"
    unfolding on_message_def strip_prefix_append using assms(2) by simp
  show "counts (on_message (done_prefix @ j) N) c = counts N c + 1"
    using assms(3) by (simp add: m)
  show "jobs N j' = Some c' \<Longrightarrow> j' \<noteq> j \<Longrightarrow> counts (on_message (done_prefix @ j) N) c' = counts N c'"
    using assms(1,2) by (auto simp: m notifier_inv_def)
qed

text \<open>Registering a job a second time closes the channel of the first registration.\<close>

lemma register_twice_closes:
  assumes "notifier_inv N" "register_job j N = (c, N')" "register_job j N' = (c', N'')"
  shows "closed c N''" and "\<not> closed c' N''"
proof -
  have "jobs N i \<noteq> Some (next_chan N)" for i
    using assms(1) by (force simp: notifier_inv_def)
  then show "closed c N''" and "\<not> closed c' N''"
    using assms by (auto simp: register_job_def Let_def closed_def split: if_splits)
qed

lemma unregister_closes:
  assumes "notifier_inv N" "jobs N j = Some c"
  shows "closed c (unregister_job j N)"
  using assms by (auto simp: closed_def unregister_job_def notifier_inv_def)

lemma register_open: "register_job j N = (c, N') \<Longrightarrow> \<not> closed c N' \<and> jobs N' j = Some c"
  by (auto simp: register_job_def Let_def closed_def)

section \<open>Properties\<close>

text \<open>
  C27: a notification wakes exactly the job it names: in any table the gateway can reach, a message
  on \<open>slice_done:job\<close> counts one on the channel of that job, leaves every other job's count, and
  changes no registration; a message for an unknown job, or on another channel, does nothing.
\<close>

theorem notification_wakes_its_job:
  assumes "notifier_inv N" "jobs N j = Some c" "counts N c + 1 < 2 ^ 64"
  shows "counts (on_message (''slice_done:'' @ k) N) c = counts N c + (if k = j then 1 else 0) \<and>
    jobs (on_message (''slice_done:'' @ k) N) = jobs N"
proof (cases "k = j")
  case True
  with on_message_counts(1) [OF assms] show ?thesis by (simp add: done_prefix_def)
next
  case False
  have "counts (on_message (done_prefix @ k) N) c = counts N c"
  proof (cases "jobs N k")
    case None
    then show ?thesis unfolding on_message_def strip_prefix_append by simp
  next
    case (Some d)
    with assms False have "d \<noteq> c" by (auto simp: notifier_inv_def)
    with Some show ?thesis unfolding on_message_def strip_prefix_append by simp
  qed
  with False show ?thesis by (simp add: done_prefix_def)
qed

lemma notification_wakes_its_job_witness:
  "counts (on_message (''slice_done:'' @ ''a'') (snd (register_job ''a'' notifier_new))) 0 =
      counts (snd (register_job ''a'' notifier_new)) 0 + (if ''a'' = ''a'' then 1 else 0) \<and>
    jobs (on_message (''slice_done:'' @ ''a'') (snd (register_job ''a'' notifier_new))) =
      jobs (snd (register_job ''a'' notifier_new))"
  by (rule notification_wakes_its_job [OF notifier_inv_register [OF notifier_inv_new]])
    (simp_all add: register_job_def notifier_new_def Let_def)

end
