(* ===== verification/Publisher.thy ===== *)
theory Publisher
  imports Config
begin

text \<open>
  The message bus of the gateway: the trait \<open>Publisher\<close> and its two ZMQ implementations
  (\<open>gateway-rs/src/publisher/mod.rs\<close>, \<open>publisher/zmq.rs\<close>). Each socket lives on a thread of
  its own that forwards what it receives over a bounded channel; the channel is modelled by the
  list of all payloads ever accepted by it, in order, since a full channel only makes the sender
  wait. libzmq and the thread builder are a parameter, the record \<open>zmq\<close>.
\<close>

section \<open>Channels and sockets\<close>

record channel =
  sent :: "bytes list"
  rx_alive :: bool

record 'z zmq =
  z_spawn :: "string \<Rightarrow> unit result"
  z_socket :: "'z result"
  z_bind :: "string \<Rightarrow> 'z \<Rightarrow> 'z result"
  z_send :: "bytes \<Rightarrow> 'z \<Rightarrow> unit result \<times> 'z"

definition new_channel :: channel where
  "new_channel = \<lparr>sent = [], rx_alive = True\<rparr>"

text \<open>\<open>SyncSender::send\<close> fails only when the receiving thread is gone.\<close>

definition channel_send :: "bytes \<Rightarrow> channel \<Rightarrow> unit result \<times> channel" where
  "channel_send p c =
     (if rx_alive c then (Ok (), c\<lparr>sent := sent c @ [p]\<rparr>)
      else (Err ''sending on a closed channel'', c))"

definition quoted :: "string \<Rightarrow> string" where
  "quoted s = CHR 0x27 # s @ [CHR 0x27]"

text \<open>The loop of a socket's thread: a failing send is logged and the payload is lost.\<close>

fun push_loop :: "'z zmq \<Rightarrow> bytes list \<Rightarrow> 'z \<Rightarrow> 'z" where
  "push_loop Z [] sock = sock"
| "push_loop Z (payload # ps) sock =
     (case z_send Z payload sock of (_, sock') \<Rightarrow> push_loop Z ps sock')"

section \<open>ZmqPublisher\<close>

text \<open>The start-up of the socket's thread, as reported over the ready channel.\<close>

definition push_thread_start :: "'z zmq \<Rightarrow> string \<Rightarrow> 'z result" where
  "push_thread_start Z endpoint =
     (case z_socket Z of
        Err e \<Rightarrow> Err (''zmq socket error: '' @ e)
      | Ok sock \<Rightarrow> (case z_bind Z endpoint sock of
          Err e \<Rightarrow> Err (''zmq bind '' @ quoted endpoint @ '' failed: '' @ e)
        | Ok sock' \<Rightarrow> Ok sock'))"

definition zmq_publisher_new :: "'z zmq \<Rightarrow> environment \<Rightarrow> (channel \<times> 'z) result" where
  "zmq_publisher_new Z env =
     (let endpoint = env_or env ''ZMQ_PUSH_ENDPOINT'' ''ipc:///tmp/softmax_tasks''
      in case z_spawn Z ''zmq-push'' of
           Err e \<Rightarrow> Err e
         | Ok _ \<Rightarrow> (case push_thread_start Z endpoint of
             Err e \<Rightarrow> Err e
           | Ok sock \<Rightarrow> Ok (new_channel, sock)))"

definition zmq_publish :: "channel \<Rightarrow> string \<Rightarrow> string \<Rightarrow> unit result \<times> channel" where
  "zmq_publish c subject payload =
     (case channel_send (as_bytes payload) c of
        (Err e, c') \<Rightarrow> (Err (''ZMQ channel send failed: '' @ e), c')
      | (Ok u, c') \<Rightarrow> (Ok u, c'))"

section \<open>ZmqMultiPublisher\<close>

definition ascii_lower :: "string \<Rightarrow> string" where
  "ascii_lower s =
     map (\<lambda>c. if 65 \<le> (of_char c :: nat) \<and> (of_char c :: nat) \<le> 90
              then char_of (of_char c + 32 :: nat) else c) s"

definition str_contains :: "string \<Rightarrow> string \<Rightarrow> bool" where
  "str_contains s pat = list_ex (\<lambda>i. take (length pat) (drop i s) = pat) [0..<length s + 1]"

definition tcp_mode :: "string \<Rightarrow> bool" where
  "tcp_mode base = str_contains (ascii_lower base) ''tcp''"

definition rank_bind_endpoint :: "environment \<Rightarrow> nat \<Rightarrow> string" where
  "rank_bind_endpoint env rank =
     (let base = env_or env ''ZMQ_BASE_ENDPOINT'' ''ipc:///tmp/softmax'';
          base_port = env_u16 env ''ZMQ_BASE_PORT'' 5560
      in if tcp_mode base then ''tcp://0.0.0.0:'' @ dec (rank_port base_port rank)
         else base @ ''_'' @ dec rank)"

definition rank_thread_start :: "'z zmq \<Rightarrow> string \<Rightarrow> 'z result" where
  "rank_thread_start Z ep =
     (case z_socket Z of
        Err e \<Rightarrow> Err (''zmq socket: '' @ e)
      | Ok sock \<Rightarrow> (case z_bind Z ep sock of
          Err e \<Rightarrow> Err (''zmq bind '' @ quoted ep @ '': '' @ e)
        | Ok sock' \<Rightarrow> Ok sock'))"

fun open_ranks :: "'z zmq \<Rightarrow> environment \<Rightarrow> nat list \<Rightarrow> (channel \<times> 'z) list result" where
  "open_ranks Z env [] = Ok []"
| "open_ranks Z env (rank # rs) =
     (case z_spawn Z (''zmq-push-'' @ dec rank) of
        Err e \<Rightarrow> Err e
      | Ok _ \<Rightarrow> (case rank_thread_start Z (rank_bind_endpoint env rank) of
          Err e \<Rightarrow> Err e
        | Ok sock \<Rightarrow> (case open_ranks Z env rs of
            Err e \<Rightarrow> Err e
          | Ok senders \<Rightarrow> Ok ((new_channel, sock) # senders))))"

definition zmq_multi_publisher_new ::
  "'z zmq \<Rightarrow> environment \<Rightarrow> nat \<Rightarrow> (channel \<times> 'z) list result" where
  "zmq_multi_publisher_new Z env world_size = open_ranks Z env [0..<world_size]"

definition zmq_multi_publish ::
  "channel list \<Rightarrow> string \<Rightarrow> string \<Rightarrow> unit result \<times> channel list" where
  "zmq_multi_publish senders subject payload =
     (case parse_uint (2 ^ 64) subject of
        None \<Rightarrow> (Err (''ZmqMultiPublisher: invalid rank '' @ quoted subject), senders)
      | Some rank \<Rightarrow>
          if rank < length senders then
            (case channel_send (as_bytes payload) (senders ! rank) of
               (Err e, _) \<Rightarrow> (Err (''ZMQ rank '' @ dec rank @ '' channel send failed: '' @ e), senders)
             | (Ok u, c') \<Rightarrow> (Ok u, senders[rank := c']))
          else (Err (''ZmqMultiPublisher: rank '' @ dec rank @ '' out of range''), senders))"

section \<open>The trait\<close>

datatype publisher = ZmqPublisher channel | ZmqMultiPublisher "channel list"

fun publish :: "publisher \<Rightarrow> string \<Rightarrow> string \<Rightarrow> unit result \<times> publisher" where
  "publish (ZmqPublisher c) subject payload =
     (case zmq_publish c subject payload of (r, c') \<Rightarrow> (r, ZmqPublisher c'))"
| "publish (ZmqMultiPublisher cs) subject payload =
     (case zmq_multi_publish cs subject payload of (r, cs') \<Rightarrow> (r, ZmqMultiPublisher cs'))"

fun is_connected :: "publisher \<Rightarrow> bool" where
  "is_connected (ZmqPublisher _) = True"
| "is_connected (ZmqMultiPublisher _) = True"

text \<open>
  The contract of the trait: a subject names at most one queue; a publish that succeeds appends
  the payload to that queue and touches no other; one that fails changes nothing.
\<close>

locale publisher_contract =
  fixes pub :: "'p \<Rightarrow> string \<Rightarrow> string \<Rightarrow> unit result \<times> 'p"
    and route :: "'p \<Rightarrow> string \<Rightarrow> nat option"
    and queue :: "'p \<Rightarrow> nat \<Rightarrow> bytes list"
  assumes pub_ok: "pub p subj pl = (Ok u, p') \<Longrightarrow>
      \<exists>i. route p subj = Some i \<and> queue p' = (queue p)(i := queue p i @ [as_bytes pl])"
    and pub_err: "pub p subj pl = (Err e, p') \<Longrightarrow> p' = p"
    and route_stable: "pub p subj pl = (r, p') \<Longrightarrow> route p' = route p"

text \<open>The loop with which a request publishes its slices: in order, up to the first failure.\<close>

fun publish_all ::
  "('p \<Rightarrow> string \<Rightarrow> string \<Rightarrow> unit result \<times> 'p) \<Rightarrow> (string \<times> string) list \<Rightarrow> 'p \<Rightarrow> unit result \<times> 'p" where
  "publish_all pub [] p = (Ok (), p)"
| "publish_all pub ((subject, payload) # ms) p =
     (case pub p subject payload of
        (Err e, p') \<Rightarrow> (Err e, p')
      | (Ok _, p') \<Rightarrow> publish_all pub ms p')"

definition routed :: "('p \<Rightarrow> string \<Rightarrow> nat option) \<Rightarrow> 'p \<Rightarrow> nat \<Rightarrow> (string \<times> string) list \<Rightarrow> bytes list" where
  "routed route p i ms = map (\<lambda>m. as_bytes (snd m)) (filter (\<lambda>m. route p (fst m) = Some i) ms)"

context publisher_contract
begin

lemma publish_all_ok:
  "publish_all pub ms p = (Ok u, p') \<Longrightarrow> queue p' i = queue p i @ routed route p i ms"
proof (induction ms arbitrary: p)
  case (Cons m ms)
  obtain subj pl where m: "m = (subj, pl)" by (cases m)
  obtain r p1 where 1: "pub p subj pl = (r, p1)" by (cases "pub p subj pl")
  with Cons.prems m obtain v where r: "r = Ok v" by (cases r) auto
  from 1 r obtain j where j: "route p subj = Some j"
      "queue p1 = (queue p)(j := queue p j @ [as_bytes pl])"
    using pub_ok by blast
  have "queue p' i = queue p1 i @ routed route p1 i ms"
    using Cons.IH [of p1] 1 r m Cons.prems by simp
  moreover have "routed route p1 i ms = routed route p i ms"
    by (simp add: routed_def route_stable [OF 1])
  ultimately show ?case using j by (auto simp: routed_def m)
qed (simp add: routed_def)

lemma publish_all_err:
  "publish_all pub ms p = (Err e, p') \<Longrightarrow>
    \<exists>k < length ms. \<forall>i. queue p' i = queue p i @ routed route p i (take k ms)"
proof (induction ms arbitrary: p)
  case (Cons m ms)
  obtain subj pl where m: "m = (subj, pl)" by (cases m)
  obtain r p1 where 1: "pub p subj pl = (r, p1)" by (cases "pub p subj pl")
  show ?case
  proof (cases r)
    case (Inl e')
    with Cons.prems 1 m have "p' = p" using pub_err by auto
    then show ?thesis by (intro exI [of _ 0]) (simp add: routed_def)
  next
    case (Inr v)
    with Cons.prems 1 m obtain k where k: "k < length ms"
        "\<forall>i. queue p' i = queue p1 i @ routed route p1 i (take k ms)"
      using Cons.IH [of p1] by auto
    obtain j where j: "route p subj = Some j"
        "queue p1 = (queue p)(j := queue p j @ [as_bytes pl])"
      using pub_ok 1 Inr by blast
    have "queue p' i = queue p i @ routed route p i (take (Suc k) (m # ms))" for i
      using k(2) j by (auto simp: routed_def route_stable [OF 1] m)
    with k(1) show ?thesis by (intro exI [of _ "Suc k"]) simp
  qed
qed simp

end

section \<open>The implementations keep the contract\<close>

definition multi_route :: "channel list \<Rightarrow> string \<Rightarrow> nat option" where
  "multi_route cs subj =
     (case parse_uint (2 ^ 64) subj of None \<Rightarrow> None | Some r \<Rightarrow> if r < length cs then Some r else None)"

fun route :: "publisher \<Rightarrow> string \<Rightarrow> nat option" where
  "route (ZmqPublisher c) subj = Some 0"
| "route (ZmqMultiPublisher cs) subj = multi_route cs subj"

fun queue :: "publisher \<Rightarrow> nat \<Rightarrow> bytes list" where
  "queue (ZmqPublisher c) i = (if i = 0 then sent c else [])"
| "queue (ZmqMultiPublisher cs) i = (if i < length cs then sent (cs ! i) else [])"

interpretation single: publisher_contract zmq_publish "\<lambda>c subj. Some 0" "\<lambda>c i. if i = 0 then sent c else []"
  by unfold_locales (auto simp: zmq_publish_def channel_send_def fun_eq_iff split: if_splits)

definition multi_queue :: "channel list \<Rightarrow> nat \<Rightarrow> bytes list" where
  "multi_queue cs i = (if i < length cs then sent (cs ! i) else [])"

lemma zmq_multi_publish_cases:
  assumes "zmq_multi_publish cs subj pl = (r, cs')"
  obtains (ok) i where "r = Ok ()" "multi_route cs subj = Some i" "i < length cs"
      "cs' = cs[i := (cs ! i)\<lparr>sent := sent (cs ! i) @ [as_bytes pl]\<rparr>]"
  | (err) e where "r = Err e" "cs' = cs"
  using assms
  by (auto simp: zmq_multi_publish_def channel_send_def multi_route_def
      split: option.splits if_splits)

lemma multi_route_update: "multi_route (cs[i := c]) = multi_route cs"
  by (rule ext) (auto simp: multi_route_def split: option.splits)

interpretation multi: publisher_contract zmq_multi_publish multi_route multi_queue
proof unfold_locales
  fix p :: "channel list" and subj pl u p' e and r :: "unit result"
  show "zmq_multi_publish p subj pl = (Ok u, p') \<Longrightarrow>
      \<exists>i. multi_route p subj = Some i \<and> multi_queue p' = (multi_queue p)(i := multi_queue p i @ [as_bytes pl])"
    by (elim zmq_multi_publish_cases) (auto simp: multi_queue_def fun_eq_iff nth_list_update)
  show "zmq_multi_publish p subj pl = (Err e, p') \<Longrightarrow> p' = p"
    by (elim zmq_multi_publish_cases) auto
  show "zmq_multi_publish p subj pl = (r, p') \<Longrightarrow> multi_route p' = multi_route p"
    by (elim zmq_multi_publish_cases) (auto simp: multi_route_update)
qed

lemma publish_single:
  "publish (ZmqPublisher c) subj pl = (r, p') \<Longrightarrow>
    \<exists>c'. p' = ZmqPublisher c' \<and> zmq_publish c subj pl = (r, c')"
  by (auto split: prod.splits)

lemma publish_multi:
  "publish (ZmqMultiPublisher cs) subj pl = (r, p') \<Longrightarrow>
    \<exists>cs'. p' = ZmqMultiPublisher cs' \<and> zmq_multi_publish cs subj pl = (r, cs')"
  by (auto split: prod.splits)

lemma queue_multi: "queue (ZmqMultiPublisher cs) = multi_queue cs"
  by (simp add: multi_queue_def fun_eq_iff)

lemma queue_single: "queue (ZmqPublisher c) = (\<lambda>i. if i = 0 then sent c else [])"
  by (simp add: fun_eq_iff)

lemma route_single: "route (ZmqPublisher c) = (\<lambda>_. Some 0)"
  and route_multi: "route (ZmqMultiPublisher cs) = multi_route cs"
  by (simp_all add: fun_eq_iff)

interpretation bus: publisher_contract publish route queue
proof unfold_locales
  fix p :: publisher and subj pl u p' e and r :: "unit result"
  show "\<exists>i. route p subj = Some i \<and> queue p' = (queue p)(i := queue p i @ [as_bytes pl])"
    if "publish p subj pl = (Ok u, p')"
  proof (cases p)
    case (ZmqPublisher c)
    with publish_single [of c subj pl "Ok u" p'] that show ?thesis
      using single.pub_ok [of c subj pl u] by (auto simp: queue_single simp del: queue.simps)
  next
    case (ZmqMultiPublisher cs)
    with publish_multi [of cs subj pl "Ok u" p'] that show ?thesis
      using multi.pub_ok [of cs subj pl u] by (auto simp: queue_multi simp del: queue.simps)
  qed
  show "p' = p" if "publish p subj pl = (Err e, p')"
  proof (cases p)
    case (ZmqPublisher c)
    with publish_single [of c subj pl "Err e" p'] that show ?thesis
      using single.pub_err [of c subj pl e] by auto
  next
    case (ZmqMultiPublisher cs)
    with publish_multi [of cs subj pl "Err e" p'] that show ?thesis
      using multi.pub_err [of cs subj pl e] by auto
  qed
  show "route p' = route p" if "publish p subj pl = (r, p')"
  proof (cases p)
    case (ZmqPublisher c)
    with publish_single [of c subj pl r p'] that show ?thesis
      by (auto simp: route_single simp del: route.simps)
  next
    case (ZmqMultiPublisher cs)
    with publish_multi [of cs subj pl r p'] that show ?thesis
      using multi.route_stable [of cs subj pl r] by (auto simp: route_multi simp del: route.simps)
  qed
qed

end
