(* ===== verification/Runtime.thy ===== *)
theory Runtime
  imports Redis Notifier Publisher
begin

text \<open>
  What a gateway request uses of the process it runs in, beside Redis: the clocks, the timer of
  \<open>tokio::time::timeout\<close>, the notifier table it shares with the other requests and with the
  subscriber task, and the publisher all requests share. Like the store, these are read from the world and may change whenever the
  request waits.
\<close>

record 's runtime =
  mono_now :: "'s \<Rightarrow> nat"  \<comment> \<open>\<open>Instant::now\<close>, in nanoseconds\<close>
  sys_secs :: "'s \<Rightarrow> nat"  \<comment> \<open>\<open>SystemTime\<close> since the epoch, in seconds\<close>
  wait_changed :: "nat \<Rightarrow> nat \<Rightarrow> 's \<Rightarrow> 's"
    \<comment> \<open>wait until the channel changes or closes, or so many nanoseconds have passed\<close>
  the_notifier :: "'s \<Rightarrow> notifier"
  with_notifier :: "notifier \<Rightarrow> 's \<Rightarrow> 's"
  the_publisher :: "'s \<Rightarrow> publisher"
  with_publisher :: "publisher \<Rightarrow> 's \<Rightarrow> 's"

text \<open>A publish on the shared publisher.\<close>

definition bus_publish :: "'s runtime \<Rightarrow> 's \<Rightarrow> string \<Rightarrow> string \<Rightarrow> unit result \<times> 's" where
  "bus_publish T s subject payload =
     (case publish (the_publisher T s) subject payload of
        (r, p) \<Rightarrow> (r, with_publisher T p s))"

locale gateway_runtime = redis_server +
  fixes T :: "'a runtime"
  assumes wait_rely: "rely (view s) (view (wait_changed T rx d s))"
    and with_view: "view (with_notifier T N s) = view s"
    and the_with: "the_notifier T (with_notifier T N s) = N"
    and bus_rely: "rely (view s) (view (with_publisher T p s))"
begin

lemma publish_all_rely: "publish_all (bus_publish T) ms s = (r, s') \<Longrightarrow> rely (view s) (view s')"
proof (induction ms arbitrary: s)
  case (Cons m ms)
  obtain subj pl where m: "m = (subj, pl)" by (cases m)
  obtain q p where q: "publish (the_publisher T s) subj pl = (q, p)" by (cases "publish (the_publisher T s) subj pl")
  have "rely (view s) (view (with_publisher T p s))" by (rule bus_rely)
  with Cons q m show ?case
    by (auto simp: bus_publish_def split: sum.splits intro: rely_trans)
qed (simp add: rely_refl)

end

text \<open>
  A request that has the publisher to itself while it publishes. Then publishing through the
  shared publisher keeps the publisher's contract.
\<close>

locale exclusive_bus =
  fixes T :: "'s runtime"
  assumes the_bus: "the_publisher T (with_publisher T p s) = p"
    and same_bus: "with_publisher T (the_publisher T s) s = s"

sublocale exclusive_bus \<subseteq> publisher_contract "bus_publish T"
  "\<lambda>s. route (the_publisher T s)" "\<lambda>s. queue (the_publisher T s)"
proof unfold_locales
  fix p :: 's and subj pl u p' e and r :: "unit result"
  show "bus_publish T p subj pl = (Ok u, p') \<Longrightarrow> \<exists>i. route (the_publisher T p) subj = Some i \<and>
      queue (the_publisher T p') = (queue (the_publisher T p))(i := queue (the_publisher T p) i @ [as_bytes pl])"
    using bus.pub_ok [of "the_publisher T p" subj pl u]
    by (cases "publish (the_publisher T p) subj pl") (auto simp: bus_publish_def the_bus)
  show "bus_publish T p subj pl = (Err e, p') \<Longrightarrow> p' = p"
    using bus.pub_err [of "the_publisher T p" subj pl e]
    by (cases "publish (the_publisher T p) subj pl") (auto simp: bus_publish_def the_bus same_bus)
  show "bus_publish T p subj pl = (r, p') \<Longrightarrow> route (the_publisher T p') = route (the_publisher T p)"
    using bus.route_stable [of "the_publisher T p" subj pl]
    by (cases "publish (the_publisher T p) subj pl") (auto simp: bus_publish_def the_bus)
qed

text \<open>
  The monotonic clock: it does not run backwards across a read of the store or an update of the
  table, and it has moved on when a timed wait returns.
\<close>

locale clocked_runtime = gateway_runtime +
  assumes get_clock: "r_get R k s = (g, s') \<Longrightarrow> mono_now T s \<le> mono_now T s'"
    and table_clock: "mono_now T s \<le> mono_now T (with_notifier T N s)"
    and wait_clock: "0 < d \<Longrightarrow> mono_now T s < mono_now T (wait_changed T rx d s)"

end
