(* ===== verification/Softmax.thy ===== *)
theory Softmax
  imports Arith
begin

text \<open>
  The two halves of the distributed softmax on the CPU: the worker's \<open>softmax_partial\<close>
  (\<open>worker-rs/src/softmax.rs\<close>) and the gateway's \<open>aggregate_softmax_cpu\<close>
  (\<open>gateway-rs/src/aggregator.rs\<close>), with the records they exchange. In exact arithmetic the
  composition of the two is the softmax of the whole vector, whatever the slicing.
\<close>

section \<open>The worker: partial statistics of a slice\<close>

record ('d, 's) partial_stats =
  ps_local_max :: 'd
  ps_partial_sum :: 'd
  ps_exp_values :: "'s list"

definition softmax_partial :: "('d, 's) arith \<Rightarrow> 'd list \<Rightarrow> ('d, 's) partial_stats" where
  "softmax_partial A data =
     (if data = [] then
        \<lparr>ps_local_max = d_zero A, ps_partial_sum = d_zero A, ps_exp_values = []\<rparr>
      else
        let local_max = d_maximum A data;
            exp_values = map (\<lambda>x. narrow A (d_exp A (d_sub A x local_max))) data;
            partial_sum = d_sum A (map (widen A) exp_values)
        in \<lparr>ps_local_max = local_max, ps_partial_sum = partial_sum,
            ps_exp_values = exp_values\<rparr>)"

section \<open>The gateway: aggregation of the slices\<close>

record 'd slice_stats =
  ss_exp_values :: "'d list"
  ss_local_max :: 'd
  ss_partial_sum :: 'd
  ss_is_normalized :: bool

definition slice_stats_default :: "('d, 's) arith \<Rightarrow> 'd slice_stats" where
  "slice_stats_default A =
     \<lparr>ss_exp_values = [], ss_local_max = d_zero A, ss_partial_sum = d_one A,
      ss_is_normalized = False\<rparr>"

definition aggregate_softmax_cpu :: "('d, 's) arith \<Rightarrow> 'd slice_stats list \<Rightarrow> 'd list" where
  "aggregate_softmax_cpu A stats =
     (if stats = [] then []
      else
        let global_max = d_maximum A (map ss_local_max stats);
            adjust = map (\<lambda>s. d_exp A (d_sub A (ss_local_max s) global_max)) stats;
            global_sum = d_sum A (map (\<lambda>(s, a). d_mul A (ss_partial_sum s) a) (zip stats adjust))
        in concat (map (\<lambda>(s, a). map (\<lambda>ev. d_div A (d_mul A ev a) global_sum) (ss_exp_values s))
             (zip stats adjust)))"

text \<open>
  What the gateway holds for a slice after it has read a worker's partial statistics back from
  the wire: the single-precision values widened, and not normalized.
\<close>

definition slice_of_partial :: "('d, 's) arith \<Rightarrow> ('d, 's) partial_stats \<Rightarrow> 'd slice_stats" where
  "slice_of_partial A p =
     \<lparr>ss_exp_values = map (widen A) (ps_exp_values p), ss_local_max = ps_local_max p,
      ss_partial_sum = ps_partial_sum p, ss_is_normalized = False\<rparr>"

section \<open>The specification\<close>

definition softmax :: "real list \<Rightarrow> real list" where
  "softmax xs = map (\<lambda>x. exp x / (\<Sum>y\<leftarrow>xs. exp y)) xs"

lemma sum_exp_pos: "xs \<noteq> [] \<Longrightarrow> 0 < (\<Sum>y\<leftarrow>xs. exp (y :: real))"
  by (cases xs) (auto intro!: add_pos_nonneg sum_list_nonneg)

lemma length_softmax [simp]: "length (softmax xs) = length xs"
  by (simp add: softmax_def)

lemma sum_list_divide: "(\<Sum>x\<leftarrow>xs. f x / c) = (\<Sum>x\<leftarrow>xs. f x) / (c :: real)"
  by (induction xs) (simp_all add: add_divide_distrib)

lemma sum_softmax: "xs \<noteq> [] \<Longrightarrow> sum_list (softmax xs) = 1"
  using sum_exp_pos [of xs] by (simp add: softmax_def sum_list_divide)

lemma softmax_pos: "p \<in> set (softmax xs) \<Longrightarrow> 0 < p"
  using sum_exp_pos [of xs] by (cases "xs = []") (auto simp: softmax_def)

lemma softmax_le_one: "p \<in> set (softmax xs) \<Longrightarrow> p \<le> 1"
  using member_le_sum_list [of p "softmax xs"] sum_softmax [of xs] softmax_pos [of _ xs]
  by (cases "xs = []") (force simp: softmax_def)+

text \<open>Shifting every entry by the same amount leaves the softmax unchanged.\<close>

lemma softmax_shift:
  "map (\<lambda>x. exp (x - c) / (\<Sum>y\<leftarrow>xs. exp (y - c))) xs = softmax xs"
proof -
  have "(\<Sum>y\<leftarrow>xs. exp (y - c)) = (\<Sum>y\<leftarrow>xs. exp y) / exp c"
    by (simp add: exp_diff sum_list_divide)
  then show ?thesis
    by (simp add: softmax_def exp_diff)
qed

section \<open>The code in exact arithmetic\<close>

lemma softmax_partial_exact:
  assumes "xs \<noteq> []"
  shows "softmax_partial exact (map XR xs) =
    \<lparr>ps_local_max = XR (Max (set xs)),
     ps_partial_sum = XR (\<Sum>x\<leftarrow>xs. exp (x - Max (set xs))),
     ps_exp_values = map (\<lambda>x. XR (exp (x - Max (set xs)))) xs\<rparr>"
proof -
  define m where "m = Max (set xs)"
  have "d_sum exact (map XR (map (\<lambda>x. exp (x - m)) xs)) = XR (\<Sum>x\<leftarrow>xs. exp (x - m))"
    by (rule d_sum_exact)
  then show ?thesis
    using assms unfolding softmax_partial_def d_maximum_exact [OF assms] m_def [symmetric]
    by (simp add: exact_simps comp_def)
qed

text \<open>
  The statistics of a slice, relative to an arbitrary reference point \<open>m\<close>: what the
  aggregation relies on, whether or not \<open>m\<close> is the maximum of the slice.
\<close>

definition stats_at :: "real \<Rightarrow> real list \<Rightarrow> xr slice_stats" where
  "stats_at m xs =
     \<lparr>ss_exp_values = map (\<lambda>x. XR (exp (x - m))) xs, ss_local_max = XR m,
      ss_partial_sum = XR (\<Sum>x\<leftarrow>xs. exp (x - m)), ss_is_normalized = False\<rparr>"

lemma slice_of_partial_exact:
  "xs \<noteq> [] \<Longrightarrow>
    slice_of_partial exact (softmax_partial exact (map XR xs)) = stats_at (Max (set xs)) xs"
  by (simp add: slice_of_partial_def softmax_partial_exact stats_at_def exact_simps)

lemma exp_shift_mult: "exp (x - m) * exp (m - g) = exp (x - g :: real)"
  by (simp flip: exp_add)

lemma sum_list_exp_mult: "(\<Sum>x\<leftarrow>xs. exp (x - m)) * exp (m - g) = (\<Sum>x\<leftarrow>xs. exp (x - g :: real))"
  by (induction xs) (simp_all add: distrib_right exp_shift_mult)

lemma aggregate_stats_at:
  assumes "concat (map snd ys) \<noteq> []"
  shows "aggregate_softmax_cpu exact (map (\<lambda>(m, xs). stats_at m xs) ys) =
    map XR (softmax (concat (map snd ys)))"
proof -
  let ?stats = "map (\<lambda>(m, xs). stats_at m xs) ys"
  define g where "g = Max (set (map fst ys))"
  define S where "S = (\<Sum>x\<leftarrow>concat (map snd ys). exp (x - g))"
  have ne: "ys \<noteq> []" using assms by auto
  have "map ss_local_max ?stats = map XR (map fst ys)"
    by (simp add: stats_at_def case_prod_unfold)
  then have gm: "d_maximum exact (map ss_local_max ?stats) = XR g"
    using ne by (simp only: d_maximum_exact g_def map_is_Nil_conv simp_thms)
  define adj where "adj = (\<lambda>s :: xr slice_stats. d_exp exact (d_sub exact (ss_local_max s) (XR g)))"
  have zip: "zip ?stats (map adj ?stats) = map (\<lambda>(m, xs). (stats_at m xs, XR (exp (m - g)))) ys"
    by (simp add: zip_maps comp_def case_prod_unfold adj_def stats_at_def exact_simps)
  have "map (\<lambda>(s, a). d_mul exact (ss_partial_sum s) a) (zip ?stats (map adj ?stats)) =
      map XR (map (\<lambda>(m, xs). \<Sum>x\<leftarrow>xs. exp (x - g)) ys)"
    unfolding zip by (simp add: case_prod_unfold stats_at_def exact_simps sum_list_exp_mult)
  then have gs: "d_sum exact (map (\<lambda>(s, a). d_mul exact (ss_partial_sum s) a)
      (zip ?stats (map adj ?stats))) = XR S"
    by (simp only: d_sum_exact S_def) (simp add: sum_list_concat_map comp_def case_prod_unfold)
  have S: "S \<noteq> 0"
  proof -
    have "0 < (\<Sum>y\<leftarrow>map (\<lambda>x. x - g) (concat (map snd ys)). exp y)"
      using assms by (intro sum_exp_pos) auto
    then show ?thesis by (simp add: S_def comp_def)
  qed
  have "aggregate_softmax_cpu exact ?stats =
      concat (map (\<lambda>(s, a). map (\<lambda>ev. d_div exact (d_mul exact ev a) (XR S)) (ss_exp_values s))
        (zip ?stats (map adj ?stats)))"
    using ne by (simp only: aggregate_softmax_cpu_def Let_def gm adj_def [symmetric] gs
        map_is_Nil_conv if_False)
  also have "\<dots> = concat (map (\<lambda>(m, xs). map (\<lambda>x. XR (exp (x - g) / S)) xs) ys)"
    unfolding zip using S
    by (simp add: case_prod_unfold stats_at_def exact_simps exp_shift_mult comp_def)
  also have "\<dots> = map XR (map (\<lambda>x. exp (x - g) / S) (concat (map snd ys)))"
    by (simp add: map_concat comp_def case_prod_unfold)
  also have "map (\<lambda>x. exp (x - g) / S) (concat (map snd ys)) = softmax (concat (map snd ys))"
    unfolding S_def by (rule softmax_shift)
  finally show ?thesis .
qed

section \<open>Properties\<close>

text \<open>
  C23: in exact arithmetic the values the gateway computes on the CPU from the workers' statistics
  are a probability distribution over the entries of the vector: one positive value of at most one
  per entry, with sum one.
\<close>

theorem cpu_aggregate_distribution:
  assumes "slices \<noteq> []" "[] \<notin> set slices"
  shows "\<exists>ps. aggregate_softmax_cpu exact
      (map (\<lambda>xs. slice_of_partial exact (softmax_partial exact (map XR xs))) slices) = map XR ps \<and>
    length ps = length (concat slices) \<and> (\<forall>p \<in> set ps. 0 < p \<and> p \<le> 1) \<and> sum_list ps = 1"
proof -
  let ?ys = "map (\<lambda>xs. (Max (set xs), xs)) slices"
  have snd: "map snd ?ys = slices" by (simp add: comp_def)
  have ne: "concat slices \<noteq> []" using assms by (cases slices) auto
  have "slice_of_partial exact (softmax_partial exact (map XR xs)) = stats_at (Max (set xs)) xs"
    if "xs \<in> set slices" for xs
    using that assms(2) by (intro slice_of_partial_exact) auto
  then have stats: "map (\<lambda>xs. slice_of_partial exact (softmax_partial exact (map XR xs))) slices =
      map (\<lambda>(m, xs). stats_at m xs) ?ys"
    by simp
  have "aggregate_softmax_cpu exact
      (map (\<lambda>xs. slice_of_partial exact (softmax_partial exact (map XR xs))) slices) =
      map XR (softmax (concat slices))"
    unfolding stats by (rule aggregate_stats_at [of ?ys, unfolded snd, OF ne])
  then show ?thesis
    using ne softmax_pos softmax_le_one sum_softmax by (intro exI [of _ "softmax (concat slices)"]) simp
qed

lemma cpu_aggregate_distribution_witness:
  "\<exists>ps. aggregate_softmax_cpu exact
      (map (\<lambda>xs. slice_of_partial exact (softmax_partial exact (map XR xs))) [[0, 1], [2 :: real]]) = map XR ps \<and>
    length ps = length (concat [[0, 1], [2 :: real]]) \<and> (\<forall>p \<in> set ps. 0 < p \<and> p \<le> 1) \<and> sum_list ps = 1"
  by (rule cpu_aggregate_distribution) simp_all

end
