(* ===== verification/Wire.thy ===== *)
theory Wire
  imports Softmax Json
begin

text \<open>
  The binary slice format: the worker's encoders (\<open>encode_partial\<close>,
  \<open>encode_normalized\<close> of \<open>worker-rs/src/handler.rs\<close>), which write little-endian, and
  the decoding half of the gateway's \<open>read_slice\<close> (\<open>gateway-rs/src/aggregator.rs\<close>), which
  reads in the byte order of the gateway's machine.
\<close>

section \<open>Fixed-width codecs\<close>

datatype endian = LE | BE

fun le_bytes :: "nat \<Rightarrow> nat \<Rightarrow> bytes" where
  "le_bytes 0 n = []"
| "le_bytes (Suc k) n = of_nat (n mod 256) # le_bytes k (n div 256)"

fun le_val :: "bytes \<Rightarrow> nat" where
  "le_val [] = 0"
| "le_val (b # bs) = unat b + 256 * le_val bs"

definition ne_val :: "endian \<Rightarrow> bytes \<Rightarrow> nat" where
  "ne_val E bs = (case E of LE \<Rightarrow> le_val bs | BE \<Rightarrow> le_val (rev bs))"

definition f64_to_le_bytes :: "f64 \<Rightarrow> bytes" where
  "f64_to_le_bytes x = le_bytes 8 (unat x)"

definition f32_to_le_bytes :: "f32 \<Rightarrow> bytes" where
  "f32_to_le_bytes x = le_bytes 4 (unat x)"

definition u32_to_le_bytes :: "32 word \<Rightarrow> bytes" where
  "u32_to_le_bytes x = le_bytes 4 (unat x)"

definition f64_from_ne_bytes :: "endian \<Rightarrow> bytes \<Rightarrow> f64" where
  "f64_from_ne_bytes E bs = of_nat (ne_val E bs)"

definition f32_from_ne_bytes :: "endian \<Rightarrow> bytes \<Rightarrow> f32" where
  "f32_from_ne_bytes E bs = of_nat (ne_val E bs)"

definition u32_from_ne_bytes :: "endian \<Rightarrow> bytes \<Rightarrow> 32 word" where
  "u32_from_ne_bytes E bs = of_nat (ne_val E bs)"

text \<open>\<open>raw[a..b]\<close>, for \<open>a \<le> b \<le> raw.len()\<close>.\<close>

definition byte_range :: "bytes \<Rightarrow> nat \<Rightarrow> nat \<Rightarrow> bytes" where
  "byte_range raw a b = take (b - a) (drop a raw)"

section \<open>The worker's encoders\<close>

definition encode_partial :: "(f64, f32) partial_stats \<Rightarrow> bytes" where
  "encode_partial stats =
     (let n = (of_nat (length (ps_exp_values stats)) :: 32 word)
      in [0x01] @ f64_to_le_bytes (ps_local_max stats) @ f64_to_le_bytes (ps_partial_sum stats) @
         u32_to_le_bytes n @ concat (map f32_to_le_bytes (ps_exp_values stats)))"

definition encode_normalized :: "f32 list \<Rightarrow> bytes" where
  "encode_normalized probs =
     (let n = (of_nat (length probs) :: 32 word)
      in [0x02] @ u32_to_le_bytes n @ concat (map f32_to_le_bytes probs))"

section \<open>The gateway's decoder\<close>

definition decode_json_slice :: "serde \<Rightarrow> nat \<Rightarrow> bytes \<Rightarrow> f64 slice_stats option result" where
  "decode_json_slice J idx raw =
     (case from_utf8 raw of
        Err e \<Rightarrow> Err (''slice '' @ dec idx @ '' not valid UTF-8: '' @ e)
      | Ok s \<Rightarrow> (case from_text J s of
          Err e \<Rightarrow> Err (''slice '' @ dec idx @ '' JSON parse failed: '' @ e)
        | Ok j \<Rightarrow>
            (let local_max = (case as_f64 (json_index j ''local_max'') of None \<Rightarrow> 0 | Some x \<Rightarrow> x);
                 partial_sum = (case as_f64 (json_index j ''partial_sum'') of
                                  None \<Rightarrow> 0x3FF0000000000000 | Some x \<Rightarrow> x)
             in case as_array (json_index j ''exp_values'') of
                  None \<Rightarrow> Err (''slice '' @ dec idx @ '' missing exp_values'')
                | Some vs \<Rightarrow> Ok (Some \<lparr>ss_exp_values = List.map_filter as_f64 vs,
                    ss_local_max = local_max, ss_partial_sum = partial_sum,
                    ss_is_normalized = False\<rparr>))))"

definition decode_slice :: "endian \<Rightarrow> serde \<Rightarrow> nat \<Rightarrow> bytes \<Rightarrow> f64 slice_stats option result" where
  "decode_slice E J idx raw =
     (let magic = raw ! 0 in
      if magic = 0x01 then
        (let HDR = 1 + 8 + 8 + 4 in
         if length raw < HDR then Ok None
         else
           let local_max = f64_from_ne_bytes E (byte_range raw 1 9);
               partial_sum = f64_from_ne_bytes E (byte_range raw 9 17);
               n = unat (u32_from_ne_bytes E (byte_range raw 17 21))
           in if length raw \<noteq> HDR + n * 4 then Ok None
              else Ok (Some
                \<lparr>ss_exp_values =
                   map (\<lambda>i. let off = HDR + i * 4
                            in f64_of_f32 (f32_from_ne_bytes E (byte_range raw off (off + 4)))) [0..<n],
                 ss_local_max = local_max, ss_partial_sum = partial_sum, ss_is_normalized = False\<rparr>))
      else if magic = 0x02 then
        (let HDR2 = 1 + 4 in
         if length raw < HDR2 then Ok None
         else
           let n = unat (u32_from_ne_bytes E (byte_range raw 1 5))
           in if length raw \<noteq> HDR2 + n * 4 then Ok None
              else Ok (Some
                \<lparr>ss_exp_values =
                   map (\<lambda>i. let off = HDR2 + i * 4
                            in f64_of_f32 (f32_from_ne_bytes E (byte_range raw off (off + 4)))) [0..<n],
                 ss_local_max = 0, ss_partial_sum = 0x3FF0000000000000, ss_is_normalized = True\<rparr>))
      else decode_json_slice J idx raw)"

section \<open>The codec interface\<close>

text \<open>
  What the format relies on for each number type: a fixed width and that reading back what was
  written gives the value. The array lemmas are proved once from it.
\<close>

locale fixed_codec =
  fixes enc :: "'a \<Rightarrow> bytes" and dcd :: "bytes \<Rightarrow> 'a" and width :: nat
  assumes length_enc: "length (enc x) = width"
    and dcd_enc: "dcd (enc x) = x"
    and enc_dcd: "length bs = width \<Longrightarrow> enc (dcd bs) = bs"
begin

lemma length_concat_enc: "length (concat (map enc xs)) = length xs * width"
  by (induction xs) (simp_all add: length_enc)

lemma range_concat_enc:
  "i < length xs \<Longrightarrow>
    byte_range (h @ concat (map enc xs)) (length h + i * width) (length h + i * width + width) = enc (xs ! i)"
proof (induction xs arbitrary: h i)
  case (Cons x xs)
  show ?case
  proof (cases i)
    case 0
    then show ?thesis by (simp add: byte_range_def length_enc)
  next
    case (Suc j)
    have "byte_range ((h @ enc x) @ concat (map enc xs)) (length (h @ enc x) + j * width)
        (length (h @ enc x) + j * width + width) = enc (xs ! j)"
      using Suc Cons.prems by (intro Cons.IH) simp
    with Suc show ?thesis by (simp add: length_enc add_ac)
  qed
qed simp

lemma dcd_array:
  "map (\<lambda>i. dcd (byte_range (h @ concat (map enc xs)) (length h + i * width)
      (length h + i * width + width))) [0..<length xs] = xs"
  by (rule nth_equalityI) (simp_all add: range_concat_enc dcd_enc)

lemma array_of_bytes:
  "length bs = n * width \<Longrightarrow> \<exists>xs. length xs = n \<and> bs = concat (map enc xs)"
proof (induction n arbitrary: bs)
  case (Suc n)
  then have "length (drop width bs) = n * width" by simp
  then obtain xs where "length xs = n" "drop width bs = concat (map enc xs)"
    using Suc.IH by blast
  moreover have "enc (dcd (take width bs)) = take width bs"
    using Suc.prems by (intro enc_dcd) simp
  ultimately have "length (dcd (take width bs) # xs) = Suc n \<and>
      bs = concat (map enc (dcd (take width bs) # xs))"
    by (metis append_take_drop_id concat.simps(2) length_Cons list.simps(9))
  then show ?case by blast
qed simp

end

lemma length_le_bytes [simp]: "length (le_bytes k n) = k"
  by (induction k arbitrary: n) simp_all

lemma le_val_le_bytes: "n < 256 ^ k \<Longrightarrow> le_val (le_bytes k n) = n"
proof (induction k arbitrary: n)
  case (Suc k)
  then have "n div 256 < 256 ^ k" by (simp add: less_mult_imp_div_less mult.commute)
  with Suc.IH show ?case by (simp add: unat_of_nat)
qed simp

lemma le_val_bound: "le_val bs < 256 ^ length bs"
proof (induction bs)
  case (Cons b bs)
  have "unat b < 256" using unsigned_less [of b, where ?'a = nat] by simp
  with Cons show ?case by simp
qed simp

lemma le_bytes_le_val: "le_bytes (length bs) (le_val bs) = bs"
proof (induction bs)
  case (Cons b bs)
  have "unat b < 256" using unsigned_less [of b, where ?'a = nat] by simp
  with Cons show ?case by simp
qed simp

interpretation f64_le: fixed_codec f64_to_le_bytes "f64_from_ne_bytes LE" 8
proof unfold_locales
  fix x :: f64 and bs :: bytes
  show "length (f64_to_le_bytes x) = 8" by (simp add: f64_to_le_bytes_def)
  show "f64_from_ne_bytes LE (f64_to_le_bytes x) = x"
    using unsigned_less [of x, where ?'a = nat]
    by (simp add: f64_from_ne_bytes_def f64_to_le_bytes_def ne_val_def le_val_le_bytes)
  assume "length bs = 8"
  then show "f64_to_le_bytes (f64_from_ne_bytes LE bs) = bs"
    using le_bytes_le_val [of bs] le_val_bound [of bs]
    by (simp add: f64_from_ne_bytes_def f64_to_le_bytes_def ne_val_def unat_of_nat)
qed

interpretation f32_le: fixed_codec f32_to_le_bytes "f32_from_ne_bytes LE" 4
proof unfold_locales
  fix x :: f32 and bs :: bytes
  show "length (f32_to_le_bytes x) = 4" by (simp add: f32_to_le_bytes_def)
  show "f32_from_ne_bytes LE (f32_to_le_bytes x) = x"
    using unsigned_less [of x, where ?'a = nat]
    by (simp add: f32_from_ne_bytes_def f32_to_le_bytes_def ne_val_def le_val_le_bytes)
  assume "length bs = 4"
  then show "f32_to_le_bytes (f32_from_ne_bytes LE bs) = bs"
    using le_bytes_le_val [of bs] le_val_bound [of bs]
    by (simp add: f32_from_ne_bytes_def f32_to_le_bytes_def ne_val_def unat_of_nat)
qed

interpretation u32_le: fixed_codec u32_to_le_bytes "u32_from_ne_bytes LE" 4
proof unfold_locales
  fix x :: "32 word" and bs :: bytes
  show "length (u32_to_le_bytes x) = 4" by (simp add: u32_to_le_bytes_def)
  show "u32_from_ne_bytes LE (u32_to_le_bytes x) = x"
    using unsigned_less [of x, where ?'a = nat]
    by (simp add: u32_from_ne_bytes_def u32_to_le_bytes_def ne_val_def le_val_le_bytes)
  assume "length bs = 4"
  then show "u32_to_le_bytes (u32_from_ne_bytes LE bs) = bs"
    using le_bytes_le_val [of bs] le_val_bound [of bs]
    by (simp add: u32_from_ne_bytes_def u32_to_le_bytes_def ne_val_def unat_of_nat)
qed

section \<open>Round trips\<close>

lemma byte_range_append [wire_simps]:
  "length a = n \<Longrightarrow> length b = m - n \<Longrightarrow> byte_range (a @ b @ c) n m = b"
  by (simp add: byte_range_def)

lemma length_encode_partial [wire_simps]:
  "length (encode_partial p) = 21 + 4 * length (ps_exp_values p)"
  by (simp add: encode_partial_def f64_le.length_enc u32_le.length_enc f32_le.length_concat_enc)

lemma length_encode_normalized [wire_simps]:
  "length (encode_normalized ps) = 5 + 4 * length ps"
  by (simp add: encode_normalized_def u32_le.length_enc f32_le.length_concat_enc)

lemma unat_u32_length: "n < 2 ^ 32 \<Longrightarrow> unat (of_nat n :: 32 word) = n"
  by (simp add: unat_of_nat)

text \<open>The fields of an encoded slice, as the decoder cuts them out.\<close>

lemma encode_partial_fields:
  defines "E p \<equiv> encode_partial p"
  shows "E p ! 0 = 0x01"
    and "byte_range (E p) 1 9 = f64_to_le_bytes (ps_local_max p)"
    and "byte_range (E p) 9 17 = f64_to_le_bytes (ps_partial_sum p)"
    and "byte_range (E p) 17 21 = u32_to_le_bytes (of_nat (length (ps_exp_values p)))"
    and "i < length (ps_exp_values p) \<Longrightarrow>
      byte_range (E p) (21 + i * 4) (21 + i * 4 + 4) = f32_to_le_bytes (ps_exp_values p ! i)"
proof -
  let ?m = "f64_to_le_bytes (ps_local_max p)" and ?s = "f64_to_le_bytes (ps_partial_sum p)"
  let ?n = "u32_to_le_bytes (of_nat (length (ps_exp_values p)))"
  let ?v = "concat (map f32_to_le_bytes (ps_exp_values p))"
  have E: "E p = [0x01] @ ?m @ ?s @ ?n @ ?v"
    by (simp add: E_def encode_partial_def)
  note len = f64_le.length_enc u32_le.length_enc
  show "E p ! 0 = 0x01" by (simp add: E)
  show "byte_range (E p) 1 9 = ?m"
    unfolding E by (rule byte_range_append) (simp_all add: len)
  have "E p = ([0x01] @ ?m) @ ?s @ (?n @ ?v)" by (simp add: E)
  then show "byte_range (E p) 9 17 = ?s"
    by (simp only:) (rule byte_range_append, simp_all add: len)
  have "E p = ([0x01] @ ?m @ ?s) @ ?n @ ?v" by (simp add: E)
  then show "byte_range (E p) 17 21 = ?n"
    by (simp only:) (rule byte_range_append, simp_all add: len)
  assume "i < length (ps_exp_values p)"
  from f32_le.range_concat_enc [OF this, of "[0x01] @ ?m @ ?s @ ?n"]
  show "byte_range (E p) (21 + i * 4) (21 + i * 4 + 4) = f32_to_le_bytes (ps_exp_values p ! i)"
    by (simp add: E len)
qed

lemma encode_normalized_fields:
  defines "E ps \<equiv> encode_normalized ps"
  shows "E ps ! 0 = 0x02"
    and "byte_range (E ps) 1 5 = u32_to_le_bytes (of_nat (length ps))"
    and "i < length ps \<Longrightarrow> byte_range (E ps) (5 + i * 4) (5 + i * 4 + 4) = f32_to_le_bytes (ps ! i)"
proof -
  let ?n = "u32_to_le_bytes (of_nat (length ps))" and ?v = "concat (map f32_to_le_bytes ps)"
  have E: "E ps = [0x02] @ ?n @ ?v" by (simp add: E_def encode_normalized_def)
  show "E ps ! 0 = 0x02" by (simp add: E)
  show "byte_range (E ps) 1 5 = ?n"
    unfolding E by (rule byte_range_append) (simp_all add: u32_le.length_enc)
  assume "i < length ps"
  from f32_le.range_concat_enc [OF this, of "[0x02] @ ?n"]
  show "byte_range (E ps) (5 + i * 4) (5 + i * 4 + 4) = f32_to_le_bytes (ps ! i)"
    by (simp add: E u32_le.length_enc)
qed

lemmas partial_fields = encode_partial_fields encode_partial_fields [simplified]
  encode_normalized_fields encode_normalized_fields [simplified]

lemma decode_encode_partial:
  assumes "length (ps_exp_values p) < 2 ^ 32"
  shows "decode_slice LE J idx (encode_partial p) =
    Ok (Some (slice_of_partial (ieee exp64 exp32) p))"
proof -
  have n: "unat (u32_from_ne_bytes LE (byte_range (encode_partial p) 17 21)) = length (ps_exp_values p)"
    using assms by (simp add: encode_partial_fields u32_le.dcd_enc unat_u32_length)
  have "map (\<lambda>i. f64_of_f32 (f32_from_ne_bytes LE
      (byte_range (encode_partial p) (21 + i * 4) (21 + i * 4 + 4)))) [0..<length (ps_exp_values p)] =
      map f64_of_f32 (ps_exp_values p)"
    by (rule nth_equalityI) (simp_all add: partial_fields f32_le.dcd_enc)
  with n show ?thesis
    by (simp add: decode_slice_def Let_def length_encode_partial partial_fields
        f64_le.dcd_enc slice_of_partial_def ieee_def)
qed

lemma decode_encode_normalized:
  assumes "length ps < 2 ^ 32"
  shows "decode_slice LE J idx (encode_normalized ps) =
    Ok (Some \<lparr>ss_exp_values = map f64_of_f32 ps, ss_local_max = 0,
      ss_partial_sum = 0x3FF0000000000000, ss_is_normalized = True\<rparr>)"
proof -
  have n: "unat (u32_from_ne_bytes LE (byte_range (encode_normalized ps) 1 5)) = length ps"
    using assms by (simp add: partial_fields u32_le.dcd_enc unat_u32_length)
  have "map (\<lambda>i. f64_of_f32 (f32_from_ne_bytes LE
      (byte_range (encode_normalized ps) (5 + i * 4) (5 + i * 4 + 4)))) [0..<length ps] =
      map f64_of_f32 ps"
    by (rule nth_equalityI) (simp_all add: partial_fields f32_le.dcd_enc)
  with n show ?thesis
    by (simp add: decode_slice_def Let_def length_encode_normalized partial_fields)
qed

section \<open>Malformed input\<close>

text \<open>A binary slice is accepted only at the length its own header announces.\<close>

lemma decode_slice_partial_cases:
  assumes "raw \<noteq> []" "raw ! 0 = 0x01"
  shows "decode_slice E J idx raw = Ok None \<or>
    (\<exists>s. decode_slice E J idx raw = Ok (Some s) \<and> length raw = 21 + 4 * length (ss_exp_values s) \<and>
      length (ss_exp_values s) = unat (u32_from_ne_bytes E (byte_range raw 17 21)) \<and>
      \<not> ss_is_normalized s)"
  using assms by (simp add: decode_slice_def Let_def)

lemma decode_slice_normalized_cases:
  assumes "raw \<noteq> []" "raw ! 0 = 0x02"
  shows "decode_slice E J idx raw = Ok None \<or>
    (\<exists>s. decode_slice E J idx raw = Ok (Some s) \<and> length raw = 5 + 4 * length (ss_exp_values s) \<and>
      length (ss_exp_values s) = unat (u32_from_ne_bytes E (byte_range raw 1 5)) \<and>
      ss_is_normalized s)"
  using assms by (simp add: decode_slice_def Let_def)



text \<open>Conversely, whatever the decoder accepts under magic 1 is the encoding of some statistics.\<close>

lemma decode_slice_complete:
  assumes "raw \<noteq> []" "raw ! 0 = 0x01" "decode_slice LE J idx raw = Ok (Some s)"
  obtains p where "raw = encode_partial p" "length (ps_exp_values p) < 2 ^ 32"
proof -
  have len: "length raw = 21 + 4 * length (ss_exp_values s)"
    and n: "length (ss_exp_values s) = unat (u32_from_ne_bytes LE (byte_range raw 17 21))"
    using decode_slice_partial_cases [OF assms(1,2), of LE J idx] assms(3) by auto
  have lt: "length (ss_exp_values s) < 2 ^ 32"
    using n unsigned_less [of "u32_from_ne_bytes LE (byte_range raw 17 21)", where ?'a = nat] by simp
  have "length (drop 21 raw) = length (ss_exp_values s) * 4" using len by simp
  then obtain xs where xs: "length xs = length (ss_exp_values s)"
      "drop 21 raw = concat (map f32_to_le_bytes xs)"
    using f32_le.array_of_bytes by blast
  define p where "p = \<lparr>ps_local_max = f64_from_ne_bytes LE (byte_range raw 1 9),
    ps_partial_sum = f64_from_ne_bytes LE (byte_range raw 9 17), ps_exp_values = xs\<rparr>"
  have blen: "length (byte_range raw a b) = b - a" if "b \<le> 21" for a b
    using that len by (simp add: byte_range_def)
  have "u32_to_le_bytes (of_nat (length xs)) = byte_range raw 17 21"
    using n xs(1) u32_le.enc_dcd [of "byte_range raw 17 21"] by (simp add: blen)
  then have "encode_partial p = [0x01] @ byte_range raw 1 9 @ byte_range raw 9 17 @
      byte_range raw 17 21 @ drop 21 raw"
    by (simp add: encode_partial_def p_def f64_le.enc_dcd blen xs(2))
  also have "[0x01] = byte_range raw 0 1"
    using assms(1,2) by (cases raw) (simp_all add: byte_range_def)
  also have "byte_range raw 0 1 @ byte_range raw 1 9 @ byte_range raw 9 17 @ byte_range raw 17 21 @
      drop 21 raw = raw"
    unfolding byte_range_def
    by (simp add: append_assoc [symmetric] flip: take_add del: append_assoc)
  finally show thesis using that [of p] lt xs(1) by (simp add: p_def)
qed

section \<open>Properties\<close>

text \<open>
  C9: what the gateway decodes from a partial slice is what the worker encoded: the maximum and
  the sum bit for bit, the values widened to double precision, marked as not normalized.
\<close>

theorem partial_slice_roundtrip:
  assumes "length (ps_exp_values p) < 2 ^ 32"
  shows "decode_slice LE J idx (encode_partial p) =
    Ok (Some (slice_of_partial (ieee exp64 exp32) p))"
  using assms by (rule decode_encode_partial)

lemma partial_slice_roundtrip_witness:
  "\<forall>J. decode_slice LE J 3 (encode_partial \<lparr>ps_local_max = 0x4000000000000000,
      ps_partial_sum = 0x3FF0000000000000, ps_exp_values = [0x3F800000]\<rparr>) =
    Ok (Some (slice_of_partial (ieee id id) \<lparr>ps_local_max = 0x4000000000000000,
      ps_partial_sum = 0x3FF0000000000000, ps_exp_values = [0x3F800000]\<rparr>))"
  by (intro allI partial_slice_roundtrip) simp

text \<open>C19: the same for the probabilities an NCCL worker sends.\<close>

theorem normalized_slice_roundtrip:
  assumes "length probs < 2 ^ 32"
  shows "decode_slice LE J idx (encode_normalized probs) =
    Ok (Some \<lparr>ss_exp_values = map f64_of_f32 probs, ss_local_max = 0,
      ss_partial_sum = 0x3FF0000000000000, ss_is_normalized = True\<rparr>)"
  using assms by (rule decode_encode_normalized)

lemma normalized_slice_roundtrip_witness:
  "\<forall>J. decode_slice LE J 0 (encode_normalized [0x3F000000, 0x3F000000]) =
    Ok (Some \<lparr>ss_exp_values = map f64_of_f32 [0x3F000000, 0x3F000000], ss_local_max = 0,
      ss_partial_sum = 0x3FF0000000000000, ss_is_normalized = True\<rparr>)"
  by (intro allI normalized_slice_roundtrip) simp



end
