(* ===== verification/Collect.thy ===== *)
theory Collect
  imports Runtime Wire
begin

text \<open>
  The gateway's collection of the slices of a job: \<open>read_slice\<close> and
  \<open>wait_for_all_slices\<close> (\<open>gateway-rs/src/aggregator.rs\<close>). Whether the loop ends depends on
  the clock, so it is a partial function: \<open>None\<close> is a loop that never returns.
\<close>

section \<open>Reading one slice\<close>

definition read_slice ::
  "'s redis \<Rightarrow> endian \<Rightarrow> serde \<Rightarrow> string \<Rightarrow> nat \<Rightarrow> 's \<Rightarrow> f64 slice_stats option result \<times> 's" where
  "read_slice R E J job_id idx s =
     (case get_bytes R (slice_key job_id idx) s of
        (Err e, s') \<Rightarrow> (Err e, s')
      | (Ok None, s') \<Rightarrow> (Ok None, s')
      | (Ok (Some b), s') \<Rightarrow> (if b = [] then Ok None else decode_slice E J idx b, s'))"

section \<open>Waiting for all slices\<close>

record collector =
  col_stats :: "f64 slice_stats list"
  col_have :: "bool list"
  col_remaining :: nat

definition collector_init :: "nat \<Rightarrow> collector" where
  "collector_init total_slices =
     \<lparr>col_stats = map (\<lambda>_. \<lparr>ss_exp_values = [], ss_local_max = 0,
        ss_partial_sum = 0x3FF0000000000000, ss_is_normalized = False\<rparr>) [0..<total_slices],
      col_have = replicate total_slices False, col_remaining = total_slices\<rparr>"

fun read_pass ::
  "'s redis \<Rightarrow> endian \<Rightarrow> serde \<Rightarrow> string \<Rightarrow> nat list \<Rightarrow> collector \<Rightarrow> 's \<Rightarrow> collector \<times> 's" where
  "read_pass R E J job_id [] c s = (c, s)"
| "read_pass R E J job_id (i # is) c s =
     (if \<not> col_have c ! i then
        (case read_slice R E J job_id i s of
           (Ok (Some x), s') \<Rightarrow>
             read_pass R E J job_id is
               (c\<lparr>col_stats := (col_stats c)[i := x], col_have := (col_have c)[i := True],
                  col_remaining := col_remaining c - 1\<rparr>) s'
         | (_, s') \<Rightarrow> read_pass R E J job_id is c s')
      else read_pass R E J job_id is c s)"

partial_function (option) wait_loop ::
  "'s redis \<Rightarrow> endian \<Rightarrow> serde \<Rightarrow> 's runtime \<Rightarrow> string \<Rightarrow> nat \<Rightarrow> nat \<Rightarrow> nat \<Rightarrow> collector \<Rightarrow> 's \<Rightarrow>
    (unit result \<times> collector \<times> 's) option" where
  "wait_loop R E J T job_id total_slices rx deadline c s =
     (case read_pass R E J job_id [0..<total_slices] c s of
        (c', s') \<Rightarrow>
          if col_remaining c' = 0 then Some (Ok (), c', s')
          else
            let now = mono_now T s'
            in if deadline \<le> now
               then Some (Err (''Timeout waiting for slices for job '' @ job_id), c', s')
               else
                 let step = min (deadline - now) 100000000
                 in wait_loop R E J T job_id total_slices rx deadline c' (wait_changed T rx step s'))"

definition wait_for_all_slices ::
  "'s redis \<Rightarrow> endian \<Rightarrow> serde \<Rightarrow> 's runtime \<Rightarrow> environment \<Rightarrow> string \<Rightarrow> nat \<Rightarrow> 's \<Rightarrow>
    (f64 slice_stats list result \<times> 's) option" where
  "wait_for_all_slices R E J T env job_id total_slices s =
     (case register_job job_id (the_notifier T s) of
        (rx, N) \<Rightarrow>
          let s = with_notifier T N s;
              deadline = mono_now T s + slice_timeout_ms env * 1000000
          in case wait_loop R E J T job_id total_slices rx deadline (collector_init total_slices) s of
               None \<Rightarrow> None
             | Some (outcome, c, s) \<Rightarrow>
                 let s = with_notifier T (unregister_job job_id (the_notifier T s)) s
                 in (case outcome of
                       Ok _ \<Rightarrow> Some (Ok (col_stats c), s)
                     | Err e \<Rightarrow> Some (Err e, s)))"

section \<open>The collector's invariant\<close>

text \<open>
  \<open>P i x\<close> is what is known of a slice \<open>x\<close> accepted for index \<open>i\<close>. Every slot marked as
  held satisfies it, and the counter says how many slots are missing.
\<close>

definition collector_inv :: "nat \<Rightarrow> (nat \<Rightarrow> f64 slice_stats \<Rightarrow> bool) \<Rightarrow> collector \<Rightarrow> bool" where
  "collector_inv n P c \<longleftrightarrow>
     length (col_stats c) = n \<and> length (col_have c) = n \<and>
     col_remaining c = card {i. i < n \<and> \<not> col_have c ! i} \<and>
     (\<forall>i < n. col_have c ! i \<longrightarrow> P i (col_stats c ! i))"

lemma collector_inv_init: "collector_inv n P (collector_init n)"
proof -
  have "{i. i < n \<and> \<not> replicate n False ! i} = {..<n}" by auto
  then show ?thesis by (simp add: collector_inv_def collector_init_def)
qed

lemma collector_inv_store:
  assumes "collector_inv n P c" "i < n" "\<not> col_have c ! i" "P i x"
  shows "collector_inv n P (c\<lparr>col_stats := (col_stats c)[i := x], col_have := (col_have c)[i := True],
    col_remaining := col_remaining c - 1\<rparr>)"
proof -
  have "{j. j < n \<and> \<not> (col_have c)[i := True] ! j} = {j. j < n \<and> \<not> col_have c ! j} - {i}"
    using assms by (auto simp: collector_inv_def nth_list_update)
  moreover have "i \<in> {j. j < n \<and> \<not> col_have c ! j}" using assms by simp
  ultimately show ?thesis
    using assms by (simp add: collector_inv_def nth_list_update)
qed

lemma collector_done:
  assumes "collector_inv n P c" "col_remaining c = 0"
  shows "length (col_stats c) = n" and "i < n \<Longrightarrow> P i (col_stats c ! i)"
  using assms by (auto simp: collector_inv_def)

text \<open>
  The loop rule: \<open>Q\<close> holds whenever a pass starts, \<open>Q'\<close> whenever one ends.
\<close>

lemma wait_loop_rule:
  assumes ret: "wait_loop R E J T job n rx deadline c s = Some (r, c', s')"
    and init: "Q c s"
    and step: "\<And>c s c1 s1. Q c s \<Longrightarrow> read_pass R E J job [0..<n] c s = (c1, s1) \<Longrightarrow>
      Q' c1 s1 \<and> (\<forall>d. Q c1 (wait_changed T rx d s1))"
  shows "Q' c' s' \<and> (r = Ok () \<longleftrightarrow> col_remaining c' = 0)"
proof -
  have "(R, E, J, T, job, n, rx) = (R, E, J, T, job, n, rx) \<and> Q c s \<longrightarrow>
      Q' (fst (snd (r, c', s'))) (snd (snd (r, c', s'))) \<and>
      (fst (r, c', s') = Ok () \<longleftrightarrow> col_remaining (fst (snd (r, c', s'))) = 0)"
  proof (rule wait_loop.raw_induct [where P = "\<lambda>R' E' J' T' job' n' rx' d c s y.
        (R', E', J', T', job', n', rx') = (R, E, J, T, job, n, rx) \<and> Q c s \<longrightarrow>
        Q' (fst (snd y)) (snd (snd y)) \<and> (fst y = Ok () \<longleftrightarrow> col_remaining (fst (snd y)) = 0)",
        OF _ ret])
    fix f R' E' J' T' job' n' rx' d c s y
    assume IH: "\<And>R' E' J' T' job' n' rx' d c s y. f R' E' J' T' job' n' rx' d c s = Some y \<Longrightarrow>
          (R', E', J', T', job', n', rx') = (R, E, J, T, job, n, rx) \<and> Q c s \<longrightarrow>
          Q' (fst (snd y)) (snd (snd y)) \<and> (fst y = Ok () \<longleftrightarrow> col_remaining (fst (snd y)) = 0)"
      and eq: "(case read_pass R' E' J' job' [0..<n'] c s of (c', s') \<Rightarrow>
          if col_remaining c' = 0 then Some (Ok (), c', s')
          else let now = mono_now T' s'
            in if d \<le> now then Some (Err (''Timeout waiting for slices for job '' @ job'), c', s')
               else let step = min (d - now) 100000000
                 in f R' E' J' T' job' n' rx' d c' (wait_changed T' rx' step s')) = Some y"
    obtain c1 s1 where pass: "read_pass R' E' J' job' [0..<n'] c s = (c1, s1)"
      by (cases "read_pass R' E' J' job' [0..<n'] c s")
    show "(R', E', J', T', job', n', rx') = (R, E, J, T, job, n, rx) \<and> Q c s \<longrightarrow>
        Q' (fst (snd y)) (snd (snd y)) \<and> (fst y = Ok () \<longleftrightarrow> col_remaining (fst (snd y)) = 0)"
    proof (intro impI, elim conjE)
      assume same: "(R', E', J', T', job', n', rx') = (R, E, J, T, job, n, rx)" and Q: "Q c s"
      have q: "Q' c1 s1" "Q c1 (wait_changed T rx w s1)" for w
        using step [OF Q, of c1 s1] pass same by auto
      show "Q' (fst (snd y)) (snd (snd y)) \<and> (fst y = Ok () \<longleftrightarrow> col_remaining (fst (snd y)) = 0)"
        using eq q(1) q(2) same IH [of R E J T job n rx d c1]
        by (auto simp: pass Let_def split: if_splits)
    qed
  qed
  with init show ?thesis by simp
qed

text \<open>
  The loop only gives up once the deadline has passed, and it always gives up then: if the clock
  never runs backwards and moves on across every wait, the loop returns.
\<close>

lemma wait_loop_late:
  assumes "wait_loop R E J T job n rx deadline c s = Some (r, c', s')"
  shows "r = Ok () \<or> deadline \<le> mono_now T s'"
proof -
  have "fst (r, c', s') = Ok () \<or> deadline \<le> mono_now T (snd (snd (r, c', s')))"
  proof (rule wait_loop.raw_induct [where P = "\<lambda>R E J T job n rx d c s y.
        fst y = Ok () \<or> d \<le> mono_now T (snd (snd y))", OF _ assms])
  qed (fastforce split: prod.splits if_splits simp: Let_def)
  then show ?thesis by simp
qed

lemma read_pass_clock:
  assumes clock: "\<And>k s g s'. r_get R k s = (g, s') \<Longrightarrow> now s \<le> (now s' :: nat)"
  shows "read_pass R E J job is c s = (c', s') \<Longrightarrow> now s \<le> now s'"
proof (induction "is" arbitrary: c s)
  case (Cons i "is")
  obtain r s1 where r: "read_slice R E J job i s = (r, s1)" by (cases "read_slice R E J job i s")
  then have "now s \<le> now s1"
    using clock [of "slice_key job i" s] by (auto simp: read_slice_def get_bytes_def split: sum.splits option.splits prod.splits)
  with r Cons show ?case by (fastforce split: if_splits sum.splits option.splits)
qed simp

lemma wait_loop_returns:
  assumes clock: "\<And>k s g s'. r_get R k s = (g, s') \<Longrightarrow> mono_now T s \<le> mono_now T s'"
    and wait: "\<And>d s. 0 < d \<Longrightarrow> mono_now T s < mono_now T (wait_changed T rx d s)"
  shows "\<exists>y. wait_loop R E J T job n rx deadline c s = Some y"
proof (induction "deadline - mono_now T s" arbitrary: c s rule: less_induct)
  case less
  obtain c1 s1 where run: "read_pass R E J job [0..<n] c s = (c1, s1)"
    by (cases "read_pass R E J job [0..<n] c s")
  have le: "mono_now T s \<le> mono_now T s1" by (rule read_pass_clock [OF clock run])
  let ?d = "min (deadline - mono_now T s1) 100000000"
  have "\<exists>y. wait_loop R E J T job n rx deadline c1 (wait_changed T rx ?d s1) = Some y"
    if "mono_now T s1 < deadline"
    using less.hyps [of "wait_changed T rx ?d s1"] wait [of ?d s1] le that by simp
  then show ?case
    by (subst wait_loop.simps) (auto simp: run Let_def)
qed

text \<open>The slices of a job are ready when every one of them is in the store and decodes.\<close>

definition slices_ready :: "endian \<Rightarrow> serde \<Rightarrow> string \<Rightarrow> nat \<Rightarrow> keyspace \<Rightarrow> bool" where
  "slices_ready E J job n m \<longleftrightarrow> (\<forall>i < n. \<exists>b x. m (slice_key job i) = Some b \<and> b \<noteq> [] \<and>
     decode_slice E J i b = Ok (Some x))"

text \<open>
  The keyspace invariant a client of the loop supplies: it survives the other processes, and
  any slice of the job that decodes under it satisfies \<open>P\<close>.
\<close>

context redis_server
begin

lemma read_slice_law:
  assumes "read_slice R E J job i s = (r, s')"
  shows "rely (view s) (view s')"
    and "r = Ok (Some x) \<Longrightarrow> \<exists>b. view s (slice_key job i) = Some b \<and> b \<noteq> [] \<and>
      decode_slice E J i b = Ok (Some x)"
proof -
  obtain g s1 where g: "r_get R (slice_key job i) s = (g, s1)"
    by (cases "r_get R (slice_key job i) s")
  note law = get_law [OF g]
  from assms g have "s' = s1"
    by (auto simp: read_slice_def get_bytes_def split: sum.splits option.splits)
  with law show "rely (view s) (view s')" by simp
  show "r = Ok (Some x) \<Longrightarrow> \<exists>b. view s (slice_key job i) = Some b \<and> b \<noteq> [] \<and>
      decode_slice E J i b = Ok (Some x)"
    using assms g law by (auto simp: read_slice_def get_bytes_def split: sum.splits option.splits if_splits)
qed

lemma read_pass_inv:
  assumes keep: "\<And>m m'. I m \<Longrightarrow> rely m m' \<Longrightarrow> I m'"
    and good: "\<And>m i b x. I m \<Longrightarrow> m (slice_key job i) = Some b \<Longrightarrow> i < n \<Longrightarrow> b \<noteq> [] \<Longrightarrow>
      decode_slice E J i b = Ok (Some x) \<Longrightarrow> P i x"
    and "I (view s)" "collector_inv n P c" "\<forall>i \<in> set is. i < n"
    and "read_pass R E J job is c s = (c', s')"
  shows "I (view s') \<and> collector_inv n P c'"
  using assms(3-)
proof (induction "is" arbitrary: c s)
  case (Cons i "is")
  obtain r s1 where r: "read_slice R E J job i s = (r, s1)" by (cases "read_slice R E J job i s")
  have I1: "I (view s1)" using Cons.prems(1) read_slice_law(1) [OF r] keep by blast
  have i: "i < n" "\<forall>i \<in> set is. i < n" using Cons.prems(3) by auto
  show ?case
  proof (cases "\<not> col_have c ! i \<and> (\<exists>x. r = Ok (Some x))")
    case True
    then obtain x where x: "r = Ok (Some x)" by blast
    then have "P i x" using read_slice_law(2) [OF r] Cons.prems(1) i(1) good by blast
    with True Cons.prems(2) i(1)
    have inv: "collector_inv n P (c\<lparr>col_stats := (col_stats c)[i := x],
        col_have := (col_have c)[i := True], col_remaining := col_remaining c - 1\<rparr>)"
      by (intro collector_inv_store) auto
    show ?thesis
      using Cons.IH [OF I1 inv i(2)] Cons.prems(4) True x r by simp
  next
    case False
    then show ?thesis
      using Cons.IH [OF I1 Cons.prems(2) i(2)] Cons.IH [OF Cons.prems(1,2) i(2)] Cons.prems(4) r
      by (auto split: if_splits sum.splits option.splits)
  qed
qed simp

lemma wait_loop_inv:
  assumes keep: "\<And>m m'. I m \<Longrightarrow> rely m m' \<Longrightarrow> I m'"
    and good: "\<And>m i b x. I m \<Longrightarrow> m (slice_key job i) = Some b \<Longrightarrow> i < n \<Longrightarrow> b \<noteq> [] \<Longrightarrow>
      decode_slice E J i b = Ok (Some x) \<Longrightarrow> P i x"
    and waits: "\<And>d s. rely (view s) (view (wait_changed T rx d s))"
    and "I (view s)" "collector_inv n P c"
    and ret: "wait_loop R E J T job n rx deadline c s = Some (r, c', s')"
  shows "I (view s') \<and> collector_inv n P c' \<and> (r = Ok () \<longleftrightarrow> col_remaining c' = 0)"
proof -
  have pass: "(I (view s1) \<and> collector_inv n P c1) \<and>
      (\<forall>d. I (view (wait_changed T rx d s1)) \<and> collector_inv n P c1)"
    if "I (view s) \<and> collector_inv n P c" "read_pass R E J job [0..<n] c s = (c1, s1)" for c s c1 s1
  proof -
    have "I (view s1) \<and> collector_inv n P c1"
      using read_pass_inv [where I = I and P = P and n = n, OF keep good _ _ _ that(2)] that(1) by simp
    then show ?thesis using keep waits by blast
  qed
  have "(I (view s') \<and> collector_inv n P c') \<and> (r = Ok () \<longleftrightarrow> col_remaining c' = 0)"
  proof (rule wait_loop_rule [OF ret])
    show "I (view s) \<and> collector_inv n P c" using assms(4,5) by simp
  qed (rule pass)
  then show ?thesis by simp
qed

subsection \<open>Slices that are there are found\<close>

lemma read_pass_complete:
  assumes keep: "\<And>s s'. W s \<Longrightarrow> W s' \<Longrightarrow> rely (view s) (view s') \<Longrightarrow> slices_ready E J job n (view s) \<Longrightarrow>
      slices_ready E J job n (view s')"
    and up: "\<And>k s. W s \<Longrightarrow> \<exists>v s'. r_get R k s = (Ok v, s') \<and> W s'"
    and "W s" "slices_ready E J job n (view s)" "length (col_have c) = n" "\<forall>i \<in> set is. i < n"
    and "read_pass R E J job is c s = (c', s')"
  shows "W s' \<and> length (col_have c') = n \<and>
    (\<forall>i < n. i \<in> set is \<or> col_have c ! i \<longrightarrow> col_have c' ! i)"
  using assms(3-)
proof (induction "is" arbitrary: c s)
  case (Cons i "is")
  obtain b x where b: "view s (slice_key job i) = Some b" "b \<noteq> []" "decode_slice E J i b = Ok (Some x)"
    using Cons.prems(2,4) by (auto simp: slices_ready_def)
  obtain v s1 where g: "r_get R (slice_key job i) s = (Ok v, s1)" and W1: "W s1"
    using up [OF Cons.prems(1)] by blast
  note law = get_law [OF g]
  have read: "read_slice R E J job i s = (Ok (Some x), s1)"
    using g law b by (simp add: read_slice_def get_bytes_def)
  have ready: "slices_ready E J job n (view s1)" using keep [OF Cons.prems(1) W1 _ Cons.prems(2)] law by blast
  have is_n: "\<forall>i \<in> set is. i < n" and i: "i < n" using Cons.prems(4) by auto
  show ?case
  proof (cases "col_have c ! i")
    case True
    then show ?thesis using Cons.IH [OF Cons.prems(1,2,3) is_n] Cons.prems(5) by auto
  next
    case False
    let ?c = "c\<lparr>col_stats := (col_stats c)[i := x], col_have := (col_have c)[i := True],
      col_remaining := col_remaining c - 1\<rparr>"
    have "length (col_have ?c) = n" using Cons.prems(3) by simp
    from Cons.IH [OF W1 ready this is_n] show ?thesis
      using Cons.prems(3,5) False read i by (auto simp: nth_list_update)
  qed
qed simp

text \<open>
  One pass over the slices takes at most \<open>slack\<close> nanoseconds. If every slice is in the store
  that long before the deadline, the loop does not time out: its last pass starts late enough
  to see them all.
\<close>

lemma wait_loop_finds:
  assumes keep: "\<And>s s'. W s \<Longrightarrow> W s' \<Longrightarrow> rely (view s) (view s') \<Longrightarrow> slices_ready E J job n (view s) \<Longrightarrow>
      slices_ready E J job n (view s')"
    and up: "\<And>k s. W s \<Longrightarrow> \<exists>v s'. r_get R k s = (Ok v, s') \<and> W s'"
    and wait: "\<And>d s. W s \<Longrightarrow> W (wait_changed T rx d s)"
    and ready: "\<And>s. W s \<Longrightarrow> deadline \<le> mono_now T s + slack \<Longrightarrow> slices_ready E J job n (view s)"
    and pass: "\<And>c s c' s'. W s \<Longrightarrow> read_pass R E J job [0..<n] c s = (c', s') \<Longrightarrow>
      W s' \<and> mono_now T s' \<le> mono_now T s + slack"
    and "W s" "collector_inv n (\<lambda>_ _. True) c"
    and ret: "wait_loop R E J T job n rx deadline c s = Some (r, c', s')"
  shows "r = Ok ()"
proof -
  let ?Q' = "\<lambda>c s. deadline \<le> mono_now T s \<longrightarrow> col_remaining c = 0"
  have step: "?Q' c1 s1 \<and> (\<forall>d. W (wait_changed T rx d s1) \<and> collector_inv n (\<lambda>_ _. True) c1)"
    if Q: "W s \<and> collector_inv n (\<lambda>_ _. True) c" and run: "read_pass R E J job [0..<n] c s = (c1, s1)"
    for c s c1 s1
  proof -
    have inv: "collector_inv n (\<lambda>_ _. True) c1"
      using read_pass_inv [where I = "\<lambda>_. True" and P = "\<lambda>_ _. True", OF _ _ _ _ _ run] Q by simp
    have "col_remaining c1 = 0" if "deadline \<le> mono_now T s1"
    proof -
      have "slices_ready E J job n (view s)"
        using ready [of s] pass [OF _ run] Q that by force
      then have "W s1 \<and> length (col_have c1) = n \<and>
          (\<forall>i < n. i \<in> set [0..<n] \<or> col_have c ! i \<longrightarrow> col_have c1 ! i)"
        by (intro read_pass_complete [where W = W, OF _ up _ _ _ _ run])
          (use Q keep in \<open>auto simp: collector_inv_def\<close>)
      then show ?thesis using inv by (simp add: collector_inv_def)
    qed
    then show ?thesis using inv pass [OF _ run] Q wait by blast
  qed
  have ends: "?Q' c' s' \<and> (r = Ok () \<longleftrightarrow> col_remaining c' = 0)"
  proof (rule wait_loop_rule [OF ret])
    show "W s \<and> collector_inv n (\<lambda>_ _. True) c" using assms by simp
  qed (rule step)
  moreover have "r = Ok () \<or> deadline \<le> mono_now T s'"
    using wait_loop_rule [OF ret, where Q = "\<lambda>_ _. True" and Q' = "\<lambda>_ _. True"] wait_loop_late [OF ret]
    by blast
  ultimately show ?thesis by blast
qed

end

end
