(* ===== verification/Gpu.thy ===== *)
theory Gpu
  imports Softmax "HOL-Library.Word"
begin

text \<open>
  The GPU paths: the CUDA kernels (\<open>worker-rs/kernels/partial_softmax.cu\<close>,
  \<open>gateway-rs/kernels/aggregate_softmax.cu\<close>) and the host code that launches them
  (\<open>worker-rs/src/gpu_worker.rs\<close>, \<open>gateway-rs/src/gpu_aggregator.rs\<close>). The driver is a
  parameter, the outcome of every call; the kernels are modelled thread by thread, in the
  lockstep that their barriers impose.
\<close>

section \<open>The driver\<close>

datatype cuda_call =
    NewContext nat | CompilePtx | NewStream | LoadModule | LoadFunction string
  | Upload nat | Alloc nat | Launch string nat | Download nat | Synchronize

record cuda =
  cu_call :: "nat \<Rightarrow> cuda_call \<Rightarrow> unit result"  \<comment> \<open>outcome of the \<open>i\<close>-th call of a routine\<close>
  cu_elems :: "nat \<Rightarrow> nat \<times> nat"  \<comment> \<open>\<open>LaunchConfig::for_num_elems\<close>: blocks, threads of each\<close>

text \<open>
  A run of calls, the first of which is the routine's \<open>i\<close>-th, each followed by \<open>?\<close>: the first
  error ends it. What is reported is the driver's error, the message of \<open>context\<close> in its place, or
  both.
\<close>

definition plain :: "string \<Rightarrow> string" where "plain e = e"

definition ctx :: "string \<Rightarrow> string \<Rightarrow> string" where "ctx msg e = msg"

declare plain_def [simp] ctx_def [simp]

fun run_calls :: "cuda \<Rightarrow> nat \<Rightarrow> ((string \<Rightarrow> string) \<times> cuda_call) list \<Rightarrow> 'a result \<Rightarrow> 'a result" where
  "run_calls D i [] k = k"
| "run_calls D i ((report, c) # cs) k =
     (case cu_call D i c of Err e \<Rightarrow> Err (report e) | Ok _ \<Rightarrow> run_calls D (Suc i) cs k)"

text \<open>A device that does whatever is not empty.\<close>

definition healthy :: "cuda \<Rightarrow> bool" where
  "healthy D \<longleftrightarrow> (\<forall>i c. (case c of Upload n \<Rightarrow> 0 < n | Alloc n \<Rightarrow> 0 < n | Launch _ n \<Rightarrow> 0 < n
     | Download n \<Rightarrow> 0 < n | _ \<Rightarrow> True) \<longrightarrow> cu_call D i c = Ok ())"

lemma healthyD [simp]:
  assumes "healthy D"
  shows "cu_call D i NewStream = Ok ()" "cu_call D i LoadModule = Ok ()"
    "cu_call D i (LoadFunction f) = Ok ()" "cu_call D i Synchronize = Ok ()"
    "0 < n \<Longrightarrow> cu_call D i (Upload n) = Ok ()" "0 < n \<Longrightarrow> cu_call D i (Alloc n) = Ok ()"
    "0 < n \<Longrightarrow> cu_call D i (Launch f n) = Ok ()" "0 < n \<Longrightarrow> cu_call D i (Download n) = Ok ()"
  using assms unfolding healthy_def by (auto split: cuda_call.splits)

section \<open>Kernels\<close>

text \<open>The index a thread computes, and a length, as 32-bit signed integers.\<close>

definition to_i32 :: "nat \<Rightarrow> int" where
  "to_i32 n = sint (word_of_nat n :: 32 word)"

text \<open>
  The tree reduction of a block in shared memory: in each round the threads below \<open>s\<close> combine
  their cell with the one \<open>s\<close> further on; all read what the previous round wrote.
\<close>

definition reduce_round :: "('a \<Rightarrow> 'a \<Rightarrow> 'a) \<Rightarrow> nat \<Rightarrow> 'a list \<Rightarrow> 'a list" where
  "reduce_round f s sdata =
     map (\<lambda>tid. if tid < s then f (sdata ! tid) (sdata ! (tid + s)) else sdata ! tid)
       [0..<length sdata]"

fun tree_reduce :: "('a \<Rightarrow> 'a \<Rightarrow> 'a) \<Rightarrow> nat \<Rightarrow> 'a list \<Rightarrow> 'a list" where
  "tree_reduce f s sdata =
     (if 0 < s then tree_reduce f (s div 2) (reduce_round f s sdata) else sdata)"

declare tree_reduce.simps [simp del]

definition block_size :: nat where
  "block_size = 256"

definition block_max_f32 :: "('d, 's) arith \<Rightarrow> 's list \<Rightarrow> int \<Rightarrow> nat \<Rightarrow> 's" where
  "block_max_f32 A data n blk =
     tree_reduce (s_max A) (block_size div 2)
       (map (\<lambda>tid. let i = to_i32 (blk * block_size + tid)
                   in if i < n then data ! nat i else s_pad A) [0..<block_size]) ! 0"

definition exp_block_sum_f32 :: "('d, 's) arith \<Rightarrow> 's list \<Rightarrow> 's \<Rightarrow> int \<Rightarrow> nat \<Rightarrow> 's" where
  "exp_block_sum_f32 A data global_max n blk =
     tree_reduce (s_add A) (block_size div 2)
       (map (\<lambda>tid. let i = to_i32 (blk * block_size + tid)
                   in if i < n then s_exp A (s_sub A (data ! nat i) global_max) else s_zero A)
         [0..<block_size]) ! 0"

text \<open>
  The element-wise writes of a grid to an output buffer: thread \<open>tid\<close> of block \<open>blk\<close>
  stores \<open>f i\<close> at its index, if that is below \<open>n\<close>.
\<close>

definition grid_writes :: "(nat \<Rightarrow> 'a) \<Rightarrow> int \<Rightarrow> nat \<Rightarrow> nat \<Rightarrow> 'a list \<Rightarrow> 'a list" where
  "grid_writes f n threads blocks buf =
     foldl (\<lambda>buf t. let i = to_i32 t in if i < n then buf[nat i := f (nat i)] else buf)
       buf [0..<blocks * threads]"

definition exp_out_f32 :: "('d, 's) arith \<Rightarrow> 's list \<Rightarrow> 's \<Rightarrow> int \<Rightarrow> nat \<Rightarrow> 's list \<Rightarrow> 's list" where
  "exp_out_f32 A data global_max n blocks out =
     grid_writes (\<lambda>i. s_exp A (s_sub A (data ! i) global_max)) n block_size blocks out"

definition normalize_f32 :: "('d, 's) arith \<Rightarrow> 's list \<Rightarrow> 's \<Rightarrow> int \<Rightarrow> nat \<Rightarrow> 's list \<Rightarrow> 's list" where
  "normalize_f32 A exp_vals global_sum n blocks out =
     grid_writes (\<lambda>i. s_div A (exp_vals ! i) global_sum) n block_size blocks out"

definition aggregate_normalize ::
  "('d, 's) arith \<Rightarrow> 's list \<Rightarrow> 's list \<Rightarrow> int list \<Rightarrow> 's \<Rightarrow> int \<Rightarrow> nat \<times> nat \<Rightarrow> 's list \<Rightarrow> 's list" where
  "aggregate_normalize A exp_vals adjusts slice_ids inv_global_sum n cfg out =
     grid_writes (\<lambda>k. s_mul A (s_mul A (exp_vals ! k) (adjusts ! nat (slice_ids ! k))) inv_global_sum)
       n (snd cfg) (fst cfg) out"

section \<open>Host code: the worker\<close>

definition num_blocks :: "nat \<Rightarrow> nat" where
  "num_blocks n = unat ((word_of_nat n + 256 - 1) div 256 :: 32 word)"

definition gpu_partial_softmax ::
  "('d, 's) arith \<Rightarrow> cuda \<Rightarrow> 's list \<Rightarrow> ('d, 's) partial_stats result" where
  "gpu_partial_softmax A D data =
     (let n = length data; nb = num_blocks n; n_i32 = to_i32 n;
          h_bmaxes = map (block_max_f32 A data n_i32) [0..<nb];
          global_max = s_maximum A h_bmaxes;
          h_exp = exp_out_f32 A data global_max n_i32 nb (replicate n (s_zero A));
          h_bsums = map (exp_block_sum_f32 A data global_max n_i32) [0..<nb];
          partial_sum = s_sum A h_bsums
      in run_calls D 0
          [(ctx ''load PTX module'', LoadModule),
           (ctx ''get block_max_f32'', LoadFunction ''block_max_f32''),
           (ctx ''get exp_and_block_sum_f32'', LoadFunction ''exp_and_block_sum_f32''),
           (ctx ''H->D input'', Upload n),
           (ctx ''alloc block_maxes'', Alloc nb),
           (ctx ''launch block_max_f32'', Launch ''block_max_f32'' nb),
           (ctx ''D->H block_maxes'', Download nb),
           (ctx ''alloc exp'', Alloc n),
           (ctx ''alloc block_sums'', Alloc nb),
           (ctx ''launch exp_and_block_sum_f32'', Launch ''exp_and_block_sum_f32'' nb),
           (ctx ''D->H exp'', Download n),
           (ctx ''D->H block_sums'', Download nb)]
          (Ok \<lparr>ps_local_max = widen A global_max, ps_partial_sum = widen A partial_sum,
             ps_exp_values = h_exp\<rparr>))"

text \<open>
  The NCCL worker. \<open>all_max\<close> and \<open>all_sum\<close> are what the collective returns to this rank for
  its own contribution.
\<close>

definition nccl_local_max :: "('d, 's) arith \<Rightarrow> 's list \<Rightarrow> 's" where
  "nccl_local_max A data =
     s_maximum A (map (block_max_f32 A data (to_i32 (length data))) [0..<num_blocks (length data)])"

definition nccl_local_sum :: "('d, 's) arith \<Rightarrow> 's \<Rightarrow> 's list \<Rightarrow> 's" where
  "nccl_local_sum A global_max data =
     s_sum A (map (exp_block_sum_f32 A data global_max (to_i32 (length data)))
       [0..<num_blocks (length data)])"

definition all_reduce_softmax ::
  "('d, 's) arith \<Rightarrow> cuda \<Rightarrow> ('s \<Rightarrow> 's result) \<Rightarrow> ('s \<Rightarrow> 's result) \<Rightarrow> 's list \<Rightarrow> 's list result" where
  "all_reduce_softmax A D all_max all_sum data =
     (let n = length data; nb = num_blocks n; n_i32 = to_i32 n
      in run_calls D 0
          [(ctx ''load PTX'', LoadModule), (plain, LoadFunction ''block_max_f32''),
           (plain, LoadFunction ''exp_and_block_sum_f32''), (plain, LoadFunction ''normalize_f32''),
           (plain, Upload n), (plain, Alloc nb), (plain, Launch ''block_max_f32'' nb),
           (plain, Download nb), (plain, Upload 1), (plain, Alloc 1)]
          (case all_max (nccl_local_max A data) of
             Err e \<Rightarrow> Err (''AllReduce MAX: '' @ e)
           | Ok global_max \<Rightarrow>
               run_calls D 10
                 [((@) ''sync: '', Synchronize), (plain, Download 1), (plain, Alloc n), (plain, Alloc nb),
                  (plain, Launch ''exp_and_block_sum_f32'' nb), (plain, Download nb),
                  (plain, Upload 1), (plain, Alloc 1)]
                 (case all_sum (nccl_local_sum A global_max data) of
                    Err e \<Rightarrow> Err (''AllReduce SUM: '' @ e)
                  | Ok global_sum \<Rightarrow>
                      let d_exp = exp_out_f32 A data global_max n_i32 nb (replicate n (s_zero A))
                      in run_calls D 18
                           [((@) ''sync: '', Synchronize), (plain, Download 1), (plain, Alloc n),
                            (plain, Launch ''normalize_f32'' nb), (plain, Download n)]
                           (Ok (normalize_f32 A d_exp global_sum n_i32 nb
                              (replicate n (s_zero A)))))))"

text \<open>
  Setting a worker up: the context of its device, the kernels and, for NCCL, the communicator,
  whose creation \<open>from_rank\<close> is the library's. The cell of the process-wide worker is written once.
\<close>

definition gpu_worker_new :: "cuda \<Rightarrow> nat \<Rightarrow> unit result" where
  "gpu_worker_new D device_id =
     run_calls D 0
       [(ctx (''init CUDA device '' @ dec device_id), NewContext device_id),
        (ctx ''NVRTC: compile partial_softmax.cu'', CompilePtx)] (Ok ())"

definition gpu_worker_init :: "cuda \<Rightarrow> nat \<Rightarrow> bool \<Rightarrow> unit result \<times> bool" where
  "gpu_worker_init D device_id initialized =
     (case gpu_worker_new D device_id of
        Err e \<Rightarrow> (Err e, initialized)
      | Ok _ \<Rightarrow> if initialized then (Err ''GPU worker already initialized'', initialized) else (Ok (), True))"

definition nccl_worker_new ::
  "cuda \<Rightarrow> (nat \<Rightarrow> nat \<Rightarrow> bytes \<Rightarrow> unit result) \<Rightarrow> nat \<Rightarrow> nat \<Rightarrow> bytes \<Rightarrow> unit result" where
  "nccl_worker_new D from_rank device_id world_size uid =
     run_calls D 0
       [(ctx (''init CUDA device '' @ dec device_id), NewContext device_id),
        (ctx ''NVRTC: compile partial_softmax.cu'', CompilePtx)]
       (case from_rank device_id world_size uid of
          Err e \<Rightarrow> Err (''NCCL Comm::from_rank: '' @ e)
        | Ok _ \<Rightarrow> Ok ())"

section \<open>Host code: the gateway\<close>

definition gpu_init :: "cuda \<Rightarrow> nat \<Rightarrow> unit result" where
  "gpu_init D device_id =
     run_calls D 0
       [(ctx ''CudaContext::new'', NewContext device_id),
        (ctx ''NVRTC compile_ptx'', CompilePtx)] (Ok ())"

definition gpu_try_new :: "cuda \<Rightarrow> nat \<Rightarrow> cuda option" where
  "gpu_try_new D device_id = (case gpu_init D device_id of Ok _ \<Rightarrow> Some D | Err _ \<Rightarrow> None)"

text \<open>The process-wide instance: the first call decides, later calls return what it found.\<close>

definition gpu_global :: "cuda \<Rightarrow> nat \<Rightarrow> cuda option option \<Rightarrow> cuda option \<times> cuda option option" where
  "gpu_global D device_id cell =
     (case cell of
        Some g \<Rightarrow> (g, cell)
      | None \<Rightarrow> (let g = gpu_try_new D device_id in (g, Some g)))"

definition gpu_adjusts :: "('d, 's) arith \<Rightarrow> 'd slice_stats list \<Rightarrow> 's list" where
  "gpu_adjusts A stats =
     (let global_max = d_maximum A (map ss_local_max stats)
      in map (\<lambda>s. narrow A (d_exp A (d_sub A (ss_local_max s) global_max))) stats)"

definition gpu_aggregate ::
  "('d, 's) arith \<Rightarrow> cuda \<Rightarrow> 'd slice_stats list \<Rightarrow> 's list result" where
  "gpu_aggregate A D stats =
     (if stats = [] then Ok []
      else
        let adjusts = gpu_adjusts A stats;
            global_sum = s_sum A (map (\<lambda>(s, a). s_mul A (narrow A (ss_partial_sum s)) a)
              (zip stats adjusts));
            inv_global_sum = s_div A (s_one A) global_sum;
            exp_vals_host = concat (map (\<lambda>s. map (narrow A) (ss_exp_values s)) stats);
            slice_ids_host = concat (map (\<lambda>(i, s). map (\<lambda>_. to_i32 i) (ss_exp_values s))
              (zip [0..<length stats] stats));
            total = sum_list (map (\<lambda>s. length (ss_exp_values s)) stats);
            cfg = cu_elems D (total mod 2 ^ 32)
        in run_calls D 0
            [(plain, NewStream), (plain, Upload (length exp_vals_host)),
             (plain, Upload (length adjusts)), (plain, Upload (length slice_ids_host)),
             (plain, Alloc total), (plain, LoadModule), (plain, LoadFunction ''aggregate_normalize''),
             (plain, Launch ''aggregate_normalize'' (fst cfg)), (plain, Download total)]
            (Ok (aggregate_normalize A exp_vals_host adjusts slice_ids_host inv_global_sum
               (to_i32 total) cfg (replicate total (s_zero A)))))"

section \<open>Reductions\<close>

lemma length_reduce_round [simp]: "length (reduce_round f s xs) = length xs"
  by (simp add: reduce_round_def)

lemma nth_reduce_round:
  "i < length xs \<Longrightarrow> reduce_round f s xs ! i = (if i < s then f (xs ! i) (xs ! (i + s)) else xs ! i)"
  by (simp add: reduce_round_def)

lemma reduce_round_map:
  assumes "\<And>a b. f (h a) (h b) = h (g a b)" "2 * s \<le> length xs"
  shows "reduce_round f s (map h xs) = map h (reduce_round g s xs)"
  using assms(2) by (intro nth_equalityI) (auto simp: nth_reduce_round assms(1))

lemma tree_reduce_step: "0 < s \<Longrightarrow> tree_reduce f s xs = tree_reduce f (s div 2) (reduce_round f s xs)"
  by (subst tree_reduce.simps) simp

lemma tree_reduce_0 [simp]: "tree_reduce f 0 xs = xs"
  by (subst tree_reduce.simps) simp

lemma length_tree_reduce: "length (tree_reduce f s xs) = length xs"
proof (induction s arbitrary: xs rule: less_induct)
  case (less s)
  then show ?case by (cases "0 < s") (simp_all add: tree_reduce_step)
qed

lemma tree_reduce_map:
  assumes "\<And>a b. f (h a) (h b) = h (g a b)"
  shows "2 * s \<le> length xs \<Longrightarrow> tree_reduce f s (map h xs) = map h (tree_reduce g s xs)"
proof (induction s arbitrary: xs rule: less_induct)
  case (less s)
  show ?case
  proof (cases "0 < s")
    case True
    then have "tree_reduce f (s div 2) (map h (reduce_round g s xs)) =
        map h (tree_reduce g (s div 2) (reduce_round g s xs))"
      using less.prems by (intro less.IH) auto
    then show ?thesis
      using True less.prems by (simp only: tree_reduce_step reduce_round_map [of f h g, OF assms])
  qed simp
qed

lemma sum_halves:
  fixes f :: "nat \<Rightarrow> 'a :: comm_monoid_add"
  shows "(\<Sum>i<2 * m. f i) = (\<Sum>i<m. f i + f (i + m))"
proof -
  have "(\<Sum>i<2 * m. f i) = (\<Sum>i<m. f i) + (\<Sum>i\<in>{m..<m + m}. f i)"
    by (simp add: lessThan_atLeast0 sum.atLeastLessThan_concat mult_2)
  also have "(\<Sum>i\<in>{m..<m + m}. f i) = (\<Sum>i<m. f (i + m))"
    using sum.shift_bounds_nat_ivl [of f 0 m m] by (simp add: lessThan_atLeast0)
  finally show ?thesis by (simp add: sum.distrib)
qed

lemma tree_reduce_sum:
  fixes xs :: "'a :: comm_monoid_add list"
  shows "2 ^ Suc k \<le> length xs \<Longrightarrow>
    tree_reduce (+) (2 ^ k) xs ! 0 = (\<Sum>i<2 ^ Suc k. xs ! i)"
proof (induction k arbitrary: xs)
  case 0
  then have "0 < length xs" by auto
  then show ?case
    by (simp add: tree_reduce_step nth_reduce_round numeral_2_eq_2 lessThan_Suc add.commute)
next
  case (Suc k)
  have "tree_reduce (+) (2 ^ Suc k) xs = tree_reduce (+) (2 ^ k) (reduce_round (+) (2 ^ Suc k) xs)"
    by (simp add: tree_reduce_step)
  also have "\<dots> ! 0 = (\<Sum>i<2 ^ Suc k. reduce_round (+) (2 ^ Suc k) xs ! i)"
    using Suc.prems by (intro Suc.IH) simp
  also have "\<dots> = (\<Sum>i<2 ^ Suc k. xs ! i + xs ! (i + 2 ^ Suc k))"
    using Suc.prems by (intro sum.cong) (auto simp: nth_reduce_round)
  also have "\<dots> = (\<Sum>i<2 ^ Suc (Suc k). xs ! i)"
    using sum_halves [of "\<lambda>i. xs ! i" "2 ^ Suc k"] by simp
  finally show ?case .
qed

lemma Max_halves:
  fixes f :: "nat \<Rightarrow> 'a :: linorder"
  assumes "0 < m"
  shows "(MAX i\<in>{..<2 * m}. f i) = (MAX i\<in>{..<m}. max (f i) (f (i + m)))"
proof (rule antisym)
  have "0 \<in> {..<m}" "0 \<in> {..<2 * m}" using assms by simp_all
  then have ne: "{..<m} \<noteq> {}" "{..<2 * m} \<noteq> {}" by blast+
  have low: "max (f i) (f (i + m)) \<le> (MAX i\<in>{..<m}. max (f i) (f (i + m)))" if "i < m" for i
    using that by (intro Max_ge) auto
  have "f i \<le> (MAX i\<in>{..<m}. max (f i) (f (i + m)))" if "i < 2 * m" for i
    using low [of i] low [of "i - m"] that by (cases "i < m") auto
  then show "(MAX i\<in>{..<2 * m}. f i) \<le> (MAX i\<in>{..<m}. max (f i) (f (i + m)))"
    using ne by simp
  have "f i \<le> (MAX i\<in>{..<2 * m}. f i)" if "i < 2 * m" for i
    using that by (intro Max_ge) auto
  then show "(MAX i\<in>{..<m}. max (f i) (f (i + m))) \<le> (MAX i\<in>{..<2 * m}. f i)"
    using ne by simp
qed

lemma tree_reduce_max:
  fixes xs :: "'a :: linorder list"
  shows "2 ^ Suc k \<le> length xs \<Longrightarrow>
    tree_reduce max (2 ^ k) xs ! 0 = (MAX i\<in>{..<2 ^ Suc k}. xs ! i)"
proof (induction k arbitrary: xs)
  case 0
  then have "0 < length xs" by auto
  then show ?case
    by (simp add: tree_reduce_step nth_reduce_round numeral_2_eq_2 lessThan_Suc max.commute)
next
  case (Suc k)
  let ?n = "2 ^ Suc k :: nat"
  have "tree_reduce max ?n xs = tree_reduce max (2 ^ k) (reduce_round max ?n xs)"
    by (simp add: tree_reduce_step)
  also have "\<dots> ! 0 = (MAX i\<in>{..<?n}. reduce_round max ?n xs ! i)"
    using Suc.prems by (intro Suc.IH) simp
  also have "\<dots> = (MAX i\<in>{..<?n}. max (xs ! i) (xs ! (i + ?n)))"
    using Suc.prems by (intro arg_cong [where f = Max] image_cong) (auto simp: nth_reduce_round)
  also have "\<dots> = (MAX i\<in>{..<2 ^ Suc (Suc k)}. xs ! i)"
    using Max_halves [of ?n "(!) xs"] by simp
  finally show ?case .
qed

section \<open>Grids\<close>

lemma to_i32_small [simp]: "n < 2 ^ 31 \<Longrightarrow> to_i32 n = int n"
  by (simp add: to_i32_def signed_of_nat signed_take_bit_int_eq_self_iff)

lemma num_blocks_eq:
  assumes "n < 2 ^ 31"
  shows "num_blocks n = (n + 255) div 256"
proof -
  have "(word_of_nat n + 256 - 1 :: 32 word) = word_of_nat (n + 255)" by simp
  moreover have "unat (word_of_nat (n + 255) :: 32 word) = n + 255"
    using assms by (simp only: unsigned_of_nat) (simp add: take_bit_nat_eq_self)
  ultimately have "unat (word_of_nat n + 256 - 1 :: 32 word) = n + 255" by (simp only:)
  then show ?thesis by (simp add: num_blocks_def unat_div)
qed

lemma num_blocks_bounds:
  assumes "n < 2 ^ 31"
  shows "n \<le> num_blocks n * block_size" "num_blocks n * block_size \<le> 2 ^ 31"
    "0 < n \<Longrightarrow> 0 < num_blocks n"
  using assms by (simp_all add: num_blocks_eq block_size_def)

lemma grid_writes_upto:
  "m \<le> 2 ^ 31 \<Longrightarrow> foldl (\<lambda>buf t. let i = to_i32 t in if i < int (length buf0) then buf[nat i := f (nat i)] else buf)
      buf0 [0..<m] = map f [0..<min m (length buf0)] @ drop m buf0"
proof (induction m)
  case (Suc m)
  show ?case
  proof (cases "m < length buf0")
    case True
    with Suc show ?thesis
      by (simp add: list_update_append Cons_nth_drop_Suc [symmetric])
  next
    case False
    with Suc show ?thesis by simp
  qed
qed simp

lemma grid_writes_all:
  assumes "length buf \<le> blocks * threads" "blocks * threads \<le> 2 ^ 31"
  shows "grid_writes f (int (length buf)) threads blocks buf = map f [0..<length buf]"
  using grid_writes_upto [OF assms(2), of buf f] assms(1) by (simp add: grid_writes_def min_absorb2)

lemma exp_out_f32_all:
  assumes "length data < 2 ^ 31" "length buf = length data"
  shows "exp_out_f32 A data gm (to_i32 (length data)) (num_blocks (length data)) buf =
    map (\<lambda>x. s_exp A (s_sub A x gm)) data"
proof -
  have "exp_out_f32 A data gm (to_i32 (length data)) (num_blocks (length data)) buf =
      map (\<lambda>i. s_exp A (s_sub A (data ! i) gm)) [0..<length data]"
    using assms num_blocks_bounds(1,2) [OF assms(1)]
      grid_writes_all [of buf "num_blocks (length data)" block_size]
    by (simp add: exp_out_f32_def)
  also have "\<dots> = map (\<lambda>x. s_exp A (s_sub A x gm)) data"
    by (rule nth_equalityI) simp_all
  finally show ?thesis .
qed

section \<open>The kernels in exact arithmetic\<close>

lemma block_reduce_exact:
  assumes "\<And>a b. f (XR a) (XR b) = XR (g a b)"
  shows "tree_reduce f (block_size div 2) (map (\<lambda>t. XR (h t)) [0..<block_size]) ! 0 =
    XR (tree_reduce g (2 ^ 7) (map h [0..<2 ^ 8]) ! 0)"
proof -
  have "tree_reduce f (2 ^ 7) (map XR (map h [0..<2 ^ 8])) = map XR (tree_reduce g (2 ^ 7) (map h [0..<2 ^ 8]))"
    by (rule tree_reduce_map) (simp_all add: assms)
  moreover have "length (tree_reduce g (2 ^ 7) (map h [0..<2 ^ 8])) = 2 ^ 8"
    by (simp add: length_tree_reduce)
  ultimately show ?thesis by (simp add: block_size_def comp_def)
qed

lemma grid_index:
  assumes "n < 2 ^ 31" "blk < num_blocks n" "t < block_size"
  shows "to_i32 (blk * block_size + t) = int (blk * block_size + t)"
proof -
  have "blk * block_size + t < Suc blk * block_size" using assms(3) by simp
  also have "\<dots> \<le> num_blocks n * block_size" using assms(2) by (intro mult_right_mono) auto
  also have "\<dots> \<le> 2 ^ 31" by (rule num_blocks_bounds(2) [OF assms(1)])
  finally show ?thesis by (rule to_i32_small)
qed

lemma block_max_exact:
  assumes "length xs < 2 ^ 31" "blk < num_blocks (length xs)"
  shows "block_max_f32 exact (map XR xs) (int (length xs)) blk =
    XR (MAX t\<in>{..<block_size}. if blk * block_size + t < length xs
      then xs ! (blk * block_size + t) else - (10 ^ 38))"
proof -
  let ?h = "\<lambda>t. if blk * block_size + t < length xs then xs ! (blk * block_size + t) else - (10 ^ 38)"
  have "map (\<lambda>tid. let i = to_i32 (blk * block_size + tid)
      in if i < int (length xs) then map XR xs ! nat i else s_pad exact) [0..<block_size] =
      map (\<lambda>t. XR (?h t)) [0..<block_size]"
    by (intro map_cong) (simp_all add: grid_index [OF assms] Let_def exact_simps del: of_nat_add of_nat_mult)
  then have "block_max_f32 exact (map XR xs) (int (length xs)) blk =
      XR (tree_reduce max (2 ^ 7) (map ?h [0..<2 ^ 8]) ! 0)"
    using block_reduce_exact [of x_max max ?h]
    by (simp only: block_max_f32_def exact_simps)
  also have "tree_reduce max (2 ^ 7) (map ?h [0..<2 ^ 8]) ! 0 = (MAX t\<in>{..<2 ^ Suc 7}. map ?h [0..<2 ^ 8] ! t)"
    by (rule tree_reduce_max) simp
  also have "\<dots> = (MAX t\<in>{..<block_size}. ?h t)"
    unfolding block_size_def by (intro arg_cong [where f = Max] image_cong) auto
  finally show ?thesis .
qed

lemma block_sum_exact:
  assumes "length xs < 2 ^ 31" "blk < num_blocks (length xs)"
  shows "exp_block_sum_f32 exact (map XR xs) (XR g) (int (length xs)) blk =
    XR (\<Sum>t<block_size. if blk * block_size + t < length xs
      then exp (xs ! (blk * block_size + t) - g) else 0)"
proof -
  let ?h = "\<lambda>t. if blk * block_size + t < length xs then exp (xs ! (blk * block_size + t) - g) else 0"
  have "map (\<lambda>tid. let i = to_i32 (blk * block_size + tid)
      in if i < int (length xs) then s_exp exact (s_sub exact (map XR xs ! nat i) (XR g)) else s_zero exact)
      [0..<block_size] = map (\<lambda>t. XR (?h t)) [0..<block_size]"
    by (intro map_cong) (simp_all add: grid_index [OF assms] Let_def exact_simps del: of_nat_add of_nat_mult)
  then have "exp_block_sum_f32 exact (map XR xs) (XR g) (int (length xs)) blk =
      XR (tree_reduce (+) (2 ^ 7) (map ?h [0..<2 ^ 8]) ! 0)"
    using block_reduce_exact [of x_add "(+)" ?h]
    by (simp only: exp_block_sum_f32_def exact_simps)
  also have "tree_reduce (+) (2 ^ 7) (map ?h [0..<2 ^ 8]) ! 0 = (\<Sum>t<2 ^ Suc 7. map ?h [0..<2 ^ 8] ! t)"
    by (rule tree_reduce_sum) simp
  also have "\<dots> = (\<Sum>t<block_size. ?h t)"
    unfolding block_size_def by (intro sum.cong) auto
  finally show ?thesis .
qed

text \<open>The grid as a whole: every entry is in one block, the rest of the last block is padding.\<close>

definition padded_max :: "real list \<Rightarrow> real" where
  "padded_max xs =
     (MAX i\<in>{..<num_blocks (length xs) * block_size}. if i < length xs then xs ! i else - (10 ^ 38))"

lemma Max_group:
  fixes h :: "nat \<Rightarrow> 'a :: linorder"
  assumes "0 < k" "0 < n"
  shows "(MAX b\<in>{..<n}. MAX t\<in>{..<k}. h (b * k + t)) = (MAX i\<in>{..<n * k}. h i)"
proof (rule antisym)
  have "0 \<in> {..<n}" "0 \<in> {..<k}" "0 \<in> {..<n * k}" using assms by simp_all
  then have ne: "{..<n} \<noteq> {}" "{..<k} \<noteq> {}" "{..<n * k} \<noteq> {}" by blast+
  have in_grid: "b * k + t < n * k" if "b < n" "t < k" for b t
  proof -
    have "b * k + t < Suc b * k" using that by simp
    also have "\<dots> \<le> n * k" using that by (intro mult_right_mono) auto
    finally show ?thesis .
  qed
  have "h i \<le> (MAX i\<in>{..<n * k}. h i)" if "i < n * k" for i
    using that by (intro Max_ge) auto
  then show "(MAX b\<in>{..<n}. MAX t\<in>{..<k}. h (b * k + t)) \<le> (MAX i\<in>{..<n * k}. h i)"
    using ne in_grid by simp
  have "h i \<le> (MAX b\<in>{..<n}. MAX t\<in>{..<k}. h (b * k + t))" if "i < n * k" for i
  proof -
    have b: "i div k < n" "i mod k < k" using that assms by (simp_all add: less_mult_imp_div_less)
    have "h i = h (i div k * k + i mod k)" by simp
    also have "\<dots> \<le> (MAX t\<in>{..<k}. h (i div k * k + t))"
      using b by (intro Max_ge) (simp_all only: finite_imageI finite_lessThan, blast)
    also have "\<dots> \<le> (MAX b\<in>{..<n}. MAX t\<in>{..<k}. h (b * k + t))"
      using b by (intro Max_ge) auto
    finally show ?thesis .
  qed
  then show "(MAX i\<in>{..<n * k}. h i) \<le> (MAX b\<in>{..<n}. MAX t\<in>{..<k}. h (b * k + t))"
    using ne by simp
qed

lemma sum_group:
  fixes h :: "nat \<Rightarrow> 'a :: comm_monoid_add"
  shows "(\<Sum>b<n. \<Sum>t<k. h (b * k + t)) = (\<Sum>i<n * k. h i)"
proof -
  have "(\<Sum>t<k. h (b * k + t)) = sum h {b * k..<b * k + k}" for b
    using sum.shift_bounds_nat_ivl [of h 0 "b * k" k] by (simp add: atLeast0LessThan add.commute)
  then show ?thesis by (simp add: sum.nat_group)
qed

lemma nccl_local_max_exact:
  assumes "xs \<noteq> []" "length xs < 2 ^ 31"
  shows "nccl_local_max exact (map XR xs) = XR (padded_max xs)"
proof -
  let ?nb = "num_blocks (length xs)"
  let ?h = "\<lambda>i. if i < length xs then xs ! i else - (10 ^ 38)"
  have pos: "0 < ?nb" using num_blocks_bounds(3) [OF assms(2)] assms(1) by simp
  have "map (block_max_f32 exact (map XR xs) (int (length xs))) [0..<?nb] =
      map XR (map (\<lambda>b. MAX t\<in>{..<block_size}. ?h (b * block_size + t)) [0..<?nb])"
    using assms(2) by (simp add: block_max_exact)
  then have "nccl_local_max exact (map XR xs) =
      XR (Max (set (map (\<lambda>b. MAX t\<in>{..<block_size}. ?h (b * block_size + t)) [0..<?nb])))"
    using pos assms(2) by (simp only: nccl_local_max_def length_map to_i32_small)
      (subst s_maximum_exact, simp_all)
  also have "Max (set (map (\<lambda>b. MAX t\<in>{..<block_size}. ?h (b * block_size + t)) [0..<?nb])) =
      (MAX b\<in>{..<?nb}. MAX t\<in>{..<block_size}. ?h (b * block_size + t))"
    by (simp add: lessThan_atLeast0)
  also have "\<dots> = padded_max xs"
    unfolding padded_max_def using pos by (intro Max_group) (simp add: block_size_def)
  finally show ?thesis .
qed

lemma nccl_local_sum_exact:
  assumes "length xs < 2 ^ 31"
  shows "nccl_local_sum exact (XR g) (map XR xs) = XR (\<Sum>x\<leftarrow>xs. exp (x - g))"
proof -
  let ?nb = "num_blocks (length xs)"
  let ?h = "\<lambda>i. if i < length xs then exp (xs ! i - g) else 0"
  have "map (exp_block_sum_f32 exact (map XR xs) (XR g) (int (length xs))) [0..<?nb] =
      map XR (map (\<lambda>b. \<Sum>t<block_size. ?h (b * block_size + t)) [0..<?nb])"
    using assms by (simp add: block_sum_exact)
  then have "nccl_local_sum exact (XR g) (map XR xs) =
      XR (\<Sum>b\<leftarrow>[0..<?nb]. \<Sum>t<block_size. ?h (b * block_size + t))"
    using assms by (simp only: nccl_local_sum_def length_map to_i32_small s_sum_exact)
  also have "(\<Sum>b\<leftarrow>[0..<?nb]. \<Sum>t<block_size. ?h (b * block_size + t)) =
      (\<Sum>b<?nb. \<Sum>t<block_size. ?h (b * block_size + t))"
    by (simp only: interv_sum_list_conv_sum_set_nat atLeast0LessThan set_upt)
  also have "\<dots> = (\<Sum>i<?nb * block_size. ?h i)"
    by (rule sum_group)
  also have "\<dots> = (\<Sum>i<length xs. exp (xs ! i - g))"
    using num_blocks_bounds(1) [OF assms] by (intro sum.mono_neutral_cong_right) auto
  also have "\<dots> = (\<Sum>x\<leftarrow>xs. exp (x - g))"
    by (simp add: sum_list_sum_nth atLeast0LessThan)
  finally show ?thesis .
qed

text \<open>The padding only shows when every entry is below it.\<close>

lemma padded_max_eq:
  assumes "xs \<noteq> []" "length xs < 2 ^ 31" "- (10 ^ 38) \<le> Max (set xs)"
  shows "padded_max xs = Max (set xs)"
proof -
  let ?I = "{..<num_blocks (length xs) * block_size}"
  let ?h = "\<lambda>i. if i < length xs then xs ! i else - (10 ^ 38)"
  have "0 \<in> ?I" using num_blocks_bounds(3) [OF assms(2)] assms(1) by (simp add: block_size_def)
  then have ne: "?h ` ?I \<noteq> {}" by blast
  have "Max (?h ` ?I) \<le> Max (set xs)"
    using ne assms(3) by (intro Max.boundedI) (auto intro: Max_ge)
  moreover have "Max (set xs) \<le> Max (?h ` ?I)"
  proof (intro Max.boundedI)
    fix x assume "x \<in> set xs"
    then obtain i where i: "i < length xs" "x = xs ! i" by (auto simp: in_set_conv_nth)
    then have "x = ?h i" "i \<in> ?I" using num_blocks_bounds(1) [OF assms(2)] by auto
    then show "x \<le> Max (?h ` ?I)" by (intro Max_ge) blast+
  qed (use assms(1) in auto)
  ultimately show ?thesis by (simp add: padded_max_def)
qed

lemma dvd_round_up: "256 dvd n \<longleftrightarrow> (n + 255) div 256 * 256 = (n :: nat)"
proof
  show "256 dvd n" if "(n + 255) div 256 * 256 = n" using that by (metis dvd_triv_right)
  show "(n + 255) div 256 * 256 = n" if "256 dvd n" using that by (auto elim!: dvdE)
qed

lemma padded_max_iff:
  assumes "xs \<noteq> []" "length xs < 2 ^ 31"
  shows "padded_max xs = Max (set xs) \<longleftrightarrow> 256 dvd length xs \<or> - (10 ^ 38) \<le> Max (set xs)"
proof (cases "- (10 ^ 38) \<le> Max (set xs)")
  case True
  with padded_max_eq [OF assms] show ?thesis by simp
next
  case low: False
  let ?N = "num_blocks (length xs) * block_size"
  let ?h = "\<lambda>i. if i < length xs then xs ! i else - (10 ^ 38)"
  have N: "length xs \<le> ?N" by (rule num_blocks_bounds(1) [OF assms(2)])
  have iff: "256 dvd length xs \<longleftrightarrow> ?N = length xs"
    using dvd_round_up [of "length xs"] by (simp only: num_blocks_eq [OF assms(2)] block_size_def)
  show ?thesis
  proof (cases "?N = length xs")
    case True
    have "?h ` {..<?N} = set xs"
      unfolding True by (auto simp: set_conv_nth)
    with True iff show ?thesis by (simp add: padded_max_def)
  next
    case False
    with N have "length xs < ?N" by simp
    then have "?h (length xs) \<le> Max (?h ` {..<?N})" by (intro Max_ge) auto
    with low have "Max (set xs) < padded_max xs" by (simp add: padded_max_def)
    with False iff low show ?thesis by simp
  qed
qed

lemma gpu_partial_softmax_exact:
  assumes "healthy D" "xs \<noteq> []" "length xs < 2 ^ 31"
  shows "\<exists>p. gpu_partial_softmax exact D (map XR xs) = Ok p \<and>
    slice_of_partial exact p = stats_at (padded_max xs) xs"
proof -
  let ?m = "padded_max xs"
  have pos: "0 < num_blocks (length xs)" using num_blocks_bounds(3) [OF assms(3)] assms(2) by simp
  note max = nccl_local_max_exact [OF assms(2,3), unfolded nccl_local_max_def, unfolded length_map]
  note sum = nccl_local_sum_exact [OF assms(3), of ?m, unfolded nccl_local_sum_def, unfolded length_map]
  have out: "exp_out_f32 exact (map XR xs) (XR ?m) (to_i32 (length xs)) (num_blocks (length xs))
      (replicate (length xs) (s_zero exact)) = map (\<lambda>x. XR (exp (x - ?m))) xs"
    using exp_out_f32_all [of "map XR xs" "replicate (length xs) (s_zero exact)" exact "XR ?m"] assms(3)
    by (simp add: exact_simps comp_def)
  show ?thesis
    using assms(1,2) pos
    by (simp add: gpu_partial_softmax_def Let_def max sum out [unfolded exact_simps] slice_of_partial_def stats_at_def exact_simps)
qed

lemma all_reduce_softmax_exact:
  assumes "healthy D" "xs \<noteq> []" "length xs < 2 ^ 31"
    and "all_max (XR (padded_max xs)) = Ok (XR g)"
    and "all_sum (XR (\<Sum>x\<leftarrow>xs. exp (x - g))) = Ok (XR S)" "S \<noteq> 0"
  shows "all_reduce_softmax exact D all_max all_sum (map XR xs) = Ok (map (\<lambda>x. XR (exp (x - g) / S)) xs)"
proof -
  let ?nb = "num_blocks (length xs)"
  let ?zero = "replicate (length xs) (s_zero exact)"
  have pos: "0 < ?nb" using num_blocks_bounds(3) [OF assms(3)] assms(2) by simp
  have out: "exp_out_f32 exact (map XR xs) (XR g) (to_i32 (length xs)) ?nb ?zero =
      map (\<lambda>x. XR (exp (x - g))) xs"
    using exp_out_f32_all [of "map XR xs" ?zero exact "XR g"] assms(3) by (simp add: exact_simps comp_def)
  have "normalize_f32 exact (map (\<lambda>x. XR (exp (x - g))) xs) (XR S) (int (length xs)) ?nb ?zero =
      map (\<lambda>i. s_div exact (map (\<lambda>x. XR (exp (x - g))) xs ! i) (XR S)) [0..<length xs]"
    using grid_writes_all [of ?zero ?nb block_size] num_blocks_bounds(1,2) [OF assms(3)]
    by (simp add: normalize_f32_def)
  also have "\<dots> = map (\<lambda>x. XR (exp (x - g) / S)) xs"
    using assms(6) by (intro nth_equalityI) (simp_all add: exact_simps)
  finally have norm: "normalize_f32 exact (map (\<lambda>x. XR (exp (x - g))) xs) (XR S) (int (length xs)) ?nb ?zero =
      map (\<lambda>x. XR (exp (x - g) / S)) xs" .
  note max = nccl_local_max_exact [OF assms(2,3)]
  note sum = nccl_local_sum_exact [OF assms(3)]
  have len: "to_i32 (length xs) = int (length xs)" using assms(3) by (rule to_i32_small)
  show ?thesis
    using assms(1,2,4,5) pos
    by (simp add: all_reduce_softmax_def Let_def max sum out [unfolded len] norm len)
qed

section \<open>The gateway's kernel addresses the right slice\<close>

text \<open>\<open>for_num_elems\<close> covers the elements, with indices that fit an \<open>int\<close>.\<close>

definition covers :: "cuda \<Rightarrow> nat \<Rightarrow> bool" where
  "covers D n \<longleftrightarrow> n \<le> fst (cu_elems D n) * snd (cu_elems D n) \<and>
     fst (cu_elems D n) * snd (cu_elems D n) \<le> 2 ^ 31"

lemma zip_index:
  "length bs = length xs \<Longrightarrow>
    map (\<lambda>(i, x). f x (bs ! i)) (zip [0..<length xs] xs) = map (\<lambda>(x, b). f x b) (zip xs bs)"
  by (rule nth_equalityI) simp_all

lemma aggregate_normalize_slices:
  assumes "length adjusts = length stats" "length stats < 2 ^ 31"
    and "n = sum_list (map (\<lambda>s. length (ss_exp_values s)) stats)" "n < 2 ^ 31" "covers D n"
    and "length out = n"
  shows "aggregate_normalize A (concat (map (\<lambda>s. map (narrow A) (ss_exp_values s)) stats)) adjusts
      (concat (map (\<lambda>(i, s). map (\<lambda>_. to_i32 i) (ss_exp_values s)) (zip [0..<length stats] stats)))
 iv (int n) (cu_elems D n) out =
    concat (map (\<lambda>(s, a). map (\<lambda>v. s_mul A (s_mul A (narrow A v) a) iv) (ss_exp_values s))
      (zip stats adjusts))"
proof -
  let ?zip = "zip [0..<length stats] stats"
  let ?f = "\<lambda>v a. s_mul A (s_mul A (narrow A v) a) iv"
  define ps where "ps = concat (map (\<lambda>p. map (Pair (fst p)) (ss_exp_values (snd p))) ?zip)"
  have vals: "concat (map (\<lambda>s. map (narrow A) (ss_exp_values s)) stats) = map (narrow A \<circ> snd) ps"
  proof -
    have "map (narrow A \<circ> snd) ps = concat (map (\<lambda>p. map (narrow A) (ss_exp_values (snd p))) ?zip)"
      by (simp add: ps_def map_concat comp_def)
    also have "map (\<lambda>p. map (narrow A) (ss_exp_values (snd p))) ?zip =
        map (\<lambda>s. map (narrow A) (ss_exp_values s)) stats"
      by (rule nth_equalityI) simp_all
    finally show ?thesis by (rule sym)
  qed
  have ids: "concat (map (\<lambda>(i, s). map (\<lambda>_. to_i32 i) (ss_exp_values s)) ?zip) = map (to_i32 \<circ> fst) ps"
    by (simp add: ps_def map_concat comp_def case_prod_unfold)
  have len: "length ps = n"
    using arg_cong [OF vals, of length] assms(3) by (simp add: length_concat comp_def)
  have id: "nat (to_i32 (fst p)) = fst p" if "p \<in> set ps" for p
    using that assms(2) by (auto simp: ps_def dest!: set_zip_leftD)
  have "aggregate_normalize A (map (narrow A \<circ> snd) ps) adjusts (map (to_i32 \<circ> fst) ps) iv
      (int n) (cu_elems D n) out =
      map (\<lambda>k. s_mul A (s_mul A (map (narrow A \<circ> snd) ps ! k)
        (adjusts ! nat (map (to_i32 \<circ> fst) ps ! k))) iv) [0..<n]"
    using grid_writes_all [of out "fst (cu_elems D n)" "snd (cu_elems D n)"] assms(5,6)
    by (simp add: aggregate_normalize_def covers_def)
  also have "\<dots> = map (\<lambda>p. ?f (snd p) (adjusts ! fst p)) ps"
    using id by (intro nth_equalityI) (simp_all add: len)
  also have "\<dots> = concat (map (\<lambda>(i, s). map (\<lambda>v. ?f v (adjusts ! i)) (ss_exp_values s)) ?zip)"
    by (simp add: ps_def map_concat comp_def case_prod_unfold)
  also have "map (\<lambda>(i, s). map (\<lambda>v. ?f v (adjusts ! i)) (ss_exp_values s)) ?zip =
      map (\<lambda>(s, a). map (\<lambda>v. ?f v a) (ss_exp_values s)) (zip stats adjusts)"
    by (rule zip_index [OF assms(1)])
  finally show ?thesis by (simp only: vals ids)
qed

lemma gpu_aggregate_slices:
  assumes "healthy D" "stats \<noteq> []" "length stats < 2 ^ 31"
    and "n = sum_list (map (\<lambda>s. length (ss_exp_values s)) stats)" "0 < n" "n < 2 ^ 31" "covers D n"
  shows "gpu_aggregate A D stats =
    Ok (concat (map (\<lambda>(s, a). map (\<lambda>v. s_mul A (s_mul A (narrow A v) a)
          (s_div A (s_one A) (s_sum A (map (\<lambda>(s, a). s_mul A (narrow A (ss_partial_sum s)) a)
            (zip stats (gpu_adjusts A stats)))))) (ss_exp_values s))
      (zip stats (gpu_adjusts A stats))))"
proof -
  have blocks: "0 < fst (cu_elems D n)" using assms(5,7) by (cases "fst (cu_elems D n)") (auto simp: covers_def)
  have zip: "map (\<lambda>p. length (ss_exp_values (snd p))) (zip [0..<length stats] stats) =
      map (\<lambda>s. length (ss_exp_values s)) stats"
    by (rule nth_equalityI) simp_all
  have lens: "length (concat (map (\<lambda>s. map (narrow A) (ss_exp_values s)) stats)) = n"
    "length (concat (map (\<lambda>(i, s). map (\<lambda>_. to_i32 i) (ss_exp_values s)) (zip [0..<length stats] stats))) = n"
    "length (gpu_adjusts A stats) = length stats"
    using zip
    by (simp_all add: assms(4) length_concat comp_def case_prod_unfold gpu_adjusts_def Let_def)
  have n: "n mod 2 ^ 32 = n" "to_i32 n = int n" using assms(6) by simp_all
  show ?thesis
    using assms(1,2,5) blocks
    by (simp only: gpu_aggregate_def Let_def lens assms(4) [symmetric] n if_False
        aggregate_normalize_slices [OF lens(3) assms(3,4,6,7), of "replicate n (s_zero A)", OF length_replicate])
      (simp add: lens)
qed

text \<open>In exact arithmetic the GPU path computes the same distribution as the CPU path.\<close>

lemma gpu_aggregate_exact:
  assumes "healthy D" "concat (map snd ys) \<noteq> []" "length ys < 2 ^ 31"
    and "length (concat (map snd ys)) < 2 ^ 31" "covers D (length (concat (map snd ys)))"
  shows "gpu_aggregate exact D (map (\<lambda>(m, xs). stats_at m xs) ys) =
    Ok (map XR (softmax (concat (map snd ys))))"
proof -
  let ?stats = "map (\<lambda>(m, xs). stats_at m xs) ys"
  let ?n = "length (concat (map snd ys))"
  let ?zip = "zip ?stats (gpu_adjusts exact ?stats)"
  define g where "g = Max (set (map fst ys))"
  define S where "S = (\<Sum>x\<leftarrow>concat (map snd ys). exp (x - g))"
  have ne: "ys \<noteq> []" using assms(2) by auto
  have n: "?n = sum_list (map (\<lambda>s. length (ss_exp_values s)) ?stats)"
    by (simp add: length_concat comp_def case_prod_unfold stats_at_def)
  have S: "S \<noteq> 0"
    using sum_exp_pos [of "map (\<lambda>x. x - g) (concat (map snd ys))"] assms(2) by (simp add: S_def comp_def)
  have "map ss_local_max ?stats = map XR (map fst ys)"
    by (simp add: stats_at_def case_prod_unfold)
  then have gm: "d_maximum exact (map ss_local_max ?stats) = XR g"
    using ne by (simp only: d_maximum_exact g_def map_is_Nil_conv simp_thms)
  have zip: "?zip = map (\<lambda>(m, xs). (stats_at m xs, XR (exp (m - g)))) ys"
    unfolding gpu_adjusts_def Let_def gm
    by (simp add: zip_maps comp_def case_prod_unfold stats_at_def exact_simps)
  have "map (\<lambda>(s, a). s_mul exact (narrow exact (ss_partial_sum s)) a) ?zip =
      map XR (map (\<lambda>(m, xs). \<Sum>x\<leftarrow>xs. exp (x - g)) ys)"
    unfolding zip by (simp add: case_prod_unfold stats_at_def exact_simps sum_list_exp_mult)
  then have gs: "s_sum exact (map (\<lambda>(s, a). s_mul exact (narrow exact (ss_partial_sum s)) a) ?zip) = XR S"
    by (simp only: s_sum_exact S_def) (simp add: sum_list_concat_map comp_def case_prod_unfold)
  have "gpu_aggregate exact D ?stats =
      Ok (concat (map (\<lambda>(s, a). map (\<lambda>v. s_mul exact (s_mul exact (narrow exact v) a)
        (s_div exact (s_one exact) (XR S))) (ss_exp_values s)) ?zip))"
    unfolding gs [symmetric] using assms(2,3) ne
    by (intro gpu_aggregate_slices [OF assms(1) _ _ n _ assms(4,5)]) auto
  also have "\<dots> = Ok (concat (map (\<lambda>(m, xs). map (\<lambda>x. XR (exp (x - g) / S)) xs) ys))"
    unfolding zip using S
    by (simp add: case_prod_unfold stats_at_def exact_simps exp_shift_mult comp_def)
  also have "concat (map (\<lambda>(m, xs). map (\<lambda>x. XR (exp (x - g) / S)) xs) ys) =
      map XR (map (\<lambda>x. exp (x - g) / S) (concat (map snd ys)))"
    by (simp add: map_concat comp_def case_prod_unfold)
  also have "map (\<lambda>x. exp (x - g) / S) (concat (map snd ys)) = softmax (concat (map snd ys))"
    unfolding S_def by (rule softmax_shift)
  finally show ?thesis .
qed

section \<open>Properties\<close>

text \<open>
  C21: in exact arithmetic the GPU worker computes what the CPU worker computes, its block-wise
  tree reductions giving the maximum and the sum of the whole slice, exactly when the padding of
  the last block cannot win: when there is no padding, or some entry is at least \<open>-1e38\<close>, the value
  the kernel pads with. For any other slice the statistics of the two workers differ.
\<close>

theorem gpu_worker_matches_cpu:
  assumes "healthy D" "xs \<noteq> []" "length xs < 2 ^ 31"
  shows "gpu_partial_softmax exact D (map XR xs) = Ok (softmax_partial exact (map XR xs)) \<longleftrightarrow>
    256 dvd length xs \<or> - (10 ^ 38) \<le> Max (set xs)"
proof -
  obtain p where p: "gpu_partial_softmax exact D (map XR xs) = Ok p"
      "slice_of_partial exact p = stats_at (padded_max xs) xs"
    using gpu_partial_softmax_exact [OF assms] by blast
  have cpu: "slice_of_partial exact (softmax_partial exact (map XR xs)) = stats_at (Max (set xs)) xs"
    using assms(2) by (simp add: slice_of_partial_exact)
  have "p = softmax_partial exact (map XR xs) \<longleftrightarrow>
      slice_of_partial exact p = slice_of_partial exact (softmax_partial exact (map XR xs))"
    by (auto simp: slice_of_partial_def exact_simps)
  also have "\<dots> \<longleftrightarrow> padded_max xs = Max (set xs)"
    unfolding p(2) cpu by (auto simp: stats_at_def)
  also have "\<dots> \<longleftrightarrow> 256 dvd length xs \<or> - (10 ^ 38) \<le> Max (set xs)"
    by (rule padded_max_iff [OF assms(2,3)])
  finally show ?thesis using p(1) by simp
qed

lemma gpu_worker_matches_cpu_witness:
  "gpu_partial_softmax exact \<lparr>cu_call = \<lambda>_ _. Ok (), cu_elems = \<lambda>n. (1, 1024)\<rparr> [XR 1, XR 3] =
    Ok (softmax_partial exact [XR 1, XR 3]) \<and>
   gpu_partial_softmax exact \<lparr>cu_call = \<lambda>_ _. Ok (), cu_elems = \<lambda>n. (1, 1024)\<rparr> [XR (- (2 * 10 ^ 38))] \<noteq>
    Ok (softmax_partial exact [XR (- (2 * 10 ^ 38))])"
  using gpu_worker_matches_cpu [of "\<lparr>cu_call = \<lambda>_ _. Ok (), cu_elems = \<lambda>n. (1, 1024)\<rparr>" "[1, 3]"]
    gpu_worker_matches_cpu [of "\<lparr>cu_call = \<lambda>_ _. Ok (), cu_elems = \<lambda>n. (1, 1024)\<rparr>" "[- (2 * 10 ^ 38)]"]
  by (simp add: healthy_def)

text \<open>
  C22: the gateway's GPU path, in any arithmetic: the flattened arrays and the slice indices it
  uploads make every thread scale its element by the factor of the slice the element came from,
  and the results come back in the order of the slices.
\<close>

theorem gpu_aggregate_per_slice:
  assumes "healthy D" "stats \<noteq> []" "length stats < 2 ^ 31"
    and "n = sum_list (map (\<lambda>s. length (ss_exp_values s)) stats)" "0 < n" "n < 2 ^ 31" "covers D n"
    and "adj = gpu_adjusts A stats"
    and "total_sum = s_sum A (map (\<lambda>(s, a). s_mul A (narrow A (ss_partial_sum s)) a) (zip stats adj))"
  shows "gpu_aggregate A D stats =
    Ok (concat (map (\<lambda>(s, a). map (\<lambda>v. s_mul A (s_mul A (narrow A v) a) (s_div A (s_one A) total_sum))
      (ss_exp_values s)) (zip stats adj)))"
  unfolding assms(8,9) by (rule gpu_aggregate_slices [OF assms(1-7)])

lemma gpu_aggregate_per_slice_witness:
  "\<exists>adj gs. gpu_aggregate exact \<lparr>cu_call = \<lambda>_ _. Ok (), cu_elems = \<lambda>n. (1, 1024)\<rparr> [stats_at 0 [1], stats_at 2 [3, 4]] =
    Ok (concat (map (\<lambda>(s, a). map (\<lambda>v. s_mul exact (s_mul exact (narrow exact v) a) (s_div exact (s_one exact) gs))
      (ss_exp_values s)) (zip [stats_at 0 [1], stats_at 2 [3, 4]] adj)))"
proof (intro exI)
  let ?D = "\<lparr>cu_call = \<lambda>_ _. Ok (), cu_elems = \<lambda>n. (1, 1024)\<rparr>"
  let ?st = "[stats_at 0 [1], stats_at 2 [3, 4]]"
  show "gpu_aggregate exact ?D ?st =
      Ok (concat (map (\<lambda>(s, a). map (\<lambda>v. s_mul exact (s_mul exact (narrow exact v) a)
        (s_div exact (s_one exact) (s_sum exact (map (\<lambda>(s, a). s_mul exact (narrow exact (ss_partial_sum s)) a)
          (zip ?st (gpu_adjusts exact ?st)))))) (ss_exp_values s)) (zip ?st (gpu_adjusts exact ?st))))"
    by (rule gpu_aggregate_per_slice [where n = 3])
      (simp_all add: healthy_def covers_def stats_at_def)
qed

end
