(* ===== verification/Aggregator.thy ===== *)
theory Aggregator
  imports Collect Gpu
begin

text \<open>
  \<open>ResultAggregator::aggregate\<close> (\<open>gateway-rs/src/aggregator.rs\<close>): collect the slices, combine
  them on the GPU or the CPU (or only concatenate what NCCL workers already normalized), store
  the text of the result. \<open>gpu\<close> is the aggregator's device, \<open>None\<close> when there is none or the
  feature \<open>cuda\<close> is off.
\<close>

definition aggregate_values ::
  "('d, 's) arith \<Rightarrow> cuda option \<Rightarrow> 'd slice_stats list \<Rightarrow> 'd list result" where
  "aggregate_values A gpu stats =
     (if (case stats of [] \<Rightarrow> False | s # _ \<Rightarrow> ss_is_normalized s)
      then Ok (concat (map ss_exp_values stats))
      else case gpu of
          Some D \<Rightarrow> (case gpu_aggregate A D stats of
              Err e \<Rightarrow> Err e
            | Ok result_f32 \<Rightarrow> Ok (map (widen A) result_f32))
        | None \<Rightarrow> Ok (aggregate_softmax_cpu A stats))"

definition aggregate ::
  "'s redis \<Rightarrow> endian \<Rightarrow> serde \<Rightarrow> (f64, f32) arith \<Rightarrow> 's runtime \<Rightarrow> environment \<Rightarrow> cuda option \<Rightarrow>
    string \<Rightarrow> nat \<Rightarrow> 's \<Rightarrow> (string result \<times> 's) option" where
  "aggregate R E J A T env gpu job_id total_slices s =
     (case wait_for_all_slices R E J T env job_id total_slices s of
        None \<Rightarrow> None
      | Some (Err e, s') \<Rightarrow> Some (Err e, s')
      | Some (Ok stats, s') \<Rightarrow>
          (case aggregate_values A gpu stats of
             Err e \<Rightarrow> Some (Err e, s')
           | Ok vals \<Rightarrow>
               let result_json = to_text J (json_f64s vals)
               in (case store_final_result R J env (sys_secs T) job_id result_json s' of
                     (Err e, s'') \<Rightarrow> Some (Err e, s'')
                   | (Ok _, s'') \<Rightarrow> Some (Ok result_json, s''))))"

section \<open>Collecting and storing under interference\<close>

definition timeout_error :: "string \<Rightarrow> string" where
  "timeout_error job_id = ''Timeout waiting for slices for job '' @ job_id"

lemma wait_loop_error:
  assumes "wait_loop R E J T job n rx deadline c s = Some (r, c', s')"
  shows "r = Ok () \<or> r = Err (timeout_error job)"
proof -
  have "fst (r, c', s') = Ok () \<or> fst (r, c', s') = Err (timeout_error job)"
  proof (rule wait_loop.raw_induct [where P = "\<lambda>R E J T job n rx d c s y.
        fst y = Ok () \<or> fst y = Err (timeout_error job)", OF _ assms])
  qed (fastforce split: prod.splits if_splits simp: Let_def timeout_error_def)
  then show ?thesis by simp
qed

lemma wait_for_all_slices_error:
  assumes "wait_for_all_slices R E J T env job n s = Some (Err e, s')"
  shows "e = timeout_error job"
  using assms
  by (auto simp: wait_for_all_slices_def Let_def split: prod.splits option.splits sum.splits
      dest: wait_loop_error)

context gateway_runtime
begin

lemma wait_for_all_slices_law:
  assumes keep: "\<And>m m'. I m \<Longrightarrow> rely m m' \<Longrightarrow> I m'"
    and good: "\<And>m i b x. I m \<Longrightarrow> m (slice_key job i) = Some b \<Longrightarrow> i < n \<Longrightarrow> b \<noteq> [] \<Longrightarrow>
      decode_slice E J i b = Ok (Some x) \<Longrightarrow> P i x"
    and I: "I (view s)"
    and run: "wait_for_all_slices R E J T env job n s = Some (r, s')"
  shows "I (view s')" and "r = Ok xs \<Longrightarrow> length xs = n \<and> (\<forall>i < n. P i (xs ! i))"
    and "jobs (the_notifier T s') job = None"
proof -
  obtain rx N where reg: "register_job job (the_notifier T s) = (rx, N)"
    by (cases "register_job job (the_notifier T s)")
  let ?s = "with_notifier T N s"
  let ?d = "mono_now T ?s + slice_timeout_ms env * 1000000"
  obtain q c s1 where loop: "wait_loop R E J T job n rx ?d (collector_init n) ?s = Some (q, c, s1)"
    using run by (auto simp: wait_for_all_slices_def reg Let_def split: option.splits)
  have s': "s' = with_notifier T (unregister_job job (the_notifier T s1)) s1"
    and r: "r = (case q of Ok _ \<Rightarrow> Ok (col_stats c) | Err e \<Rightarrow> Err e)"
    using run loop by (auto simp: wait_for_all_slices_def reg Let_def split: sum.splits)
  have inv: "I (view s1) \<and> collector_inv n P c \<and> (q = Ok () \<longleftrightarrow> col_remaining c = 0)"
  proof (rule wait_loop_inv [OF _ _ wait_rely _ collector_inv_init loop])
    show "I m'" if "I m" "rely m m'" for m m' using keep that .
    show "P i x" if "I m" "m (slice_key job i) = Some b" "i < n" "b \<noteq> []"
      "decode_slice E J i b = Ok (Some x)" for m i b x
      using good that .
  qed (use I in \<open>simp_all add: with_view\<close>)
  then show "I (view s')" by (simp add: s' with_view)
  show "r = Ok xs \<Longrightarrow> length xs = n \<and> (\<forall>i < n. P i (xs ! i))"
    using inv collector_done [of n P c] by (auto simp: r split: sum.splits)
  show "jobs (the_notifier T s') job = None"
    by (simp add: s' the_with unregister_job_def)
qed

lemma store_final_result_law:
  assumes keep: "\<And>m m'. I m \<Longrightarrow> rely m m' \<Longrightarrow> I m'"
    and final: "\<And>m. I m \<Longrightarrow> I (m(result_key job \<mapsto> as_bytes text))"
    and progress: "\<And>m b. I m \<Longrightarrow> I (m(progress_key job \<mapsto> b))"
    and I: "I (view s)"
    and run: "store_final_result R J env now job text s = (r, s')"
  shows "I (view s')"
proof -
  have stored: "I (view s2)" if st: "set_ex R k t ttl s1 = (q, s2)" and I1: "I (view s1)"
    and k: "\<And>m. I m \<Longrightarrow> I (m(k \<mapsto> as_bytes t))" for k t ttl s1 q s2
  proof -
    obtain m where "wrote q (view s1) k (as_bytes t) m" "rely m (view s2)"
      using set_ex_wrote [OF st] by blast
    then show ?thesis using k [OF I1] I1 keep by (auto simp: wrote_def split: if_splits)
  qed
  obtain q s1 where 1: "set_ex R (result_key job) text (result_ttl env) s = (q, s1)"
    by (cases "set_ex R (result_key job) text (result_ttl env) s")
  have I1: "I (view s1)" using stored [OF 1 I] final by blast
  show ?thesis
  proof (cases q)
    case (Inl e)
    with run 1 I1 show ?thesis by (simp add: store_final_result_def)
  next
    case (Inr u)
    with run 1 have "update_progress R J env now job ''completed'' s1 = (r, s')"
      by (simp add: store_final_result_def)
    then show ?thesis
      using stored [OF _ I1] progress unfolding update_progress_def Let_def by blast
  qed
qed

text \<open>
  An answer is the text of the combination of slices that each satisfied \<open>P\<close>, and the job is
  no longer registered; so it is after an error.
\<close>

lemma aggregate_law:
  assumes keep: "\<And>m m'. I m \<Longrightarrow> rely m m' \<Longrightarrow> I m'"
    and good: "\<And>m i b x. I m \<Longrightarrow> m (slice_key job i) = Some b \<Longrightarrow> i < n \<Longrightarrow> b \<noteq> [] \<Longrightarrow>
      decode_slice E J i b = Ok (Some x) \<Longrightarrow> P i x"
    and I: "I (view s)"
    and run: "aggregate R E J A T env gpu job n s = Some (Ok text, s')"
  shows "\<exists>xs vals. length xs = n \<and> (\<forall>i < n. P i (xs ! i)) \<and> aggregate_values A gpu xs = Ok vals \<and>
    text = to_text J (json_f64s vals)"
proof -
  obtain r s1 where w: "wait_for_all_slices R E J T env job n s = Some (r, s1)"
    using run by (auto simp: aggregate_def split: option.splits)
  with run obtain xs where r: "r = Ok xs" by (cases r) (auto simp: aggregate_def)
  have "length xs = n \<and> (\<forall>i < n. P i (xs ! i))"
    using wait_for_all_slices_law(2) [where I = I and P = P, OF _ _ I w r] keep good by blast
  moreover obtain vals where "aggregate_values A gpu xs = Ok vals" "text = to_text J (json_f64s vals)"
    using run w r by (auto simp: aggregate_def Let_def split: sum.splits prod.splits)
  ultimately show ?thesis by blast
qed

end

context clocked_runtime
begin

lemma wait_for_all_slices_returns:
  "\<exists>y. wait_for_all_slices R E J T env job n s = Some y"
proof -
  obtain rx N where reg: "register_job job (the_notifier T s) = (rx, N)"
    by (cases "register_job job (the_notifier T s)")
  have "\<exists>y. wait_loop R E J T job n rx d c s0 = Some y" for d c s0
    by (rule wait_loop_returns) (auto intro: get_clock wait_clock)
  then show ?thesis
    by (fastforce simp: wait_for_all_slices_def reg Let_def split: option.splits sum.splits)
qed

text \<open>It gives up only after the full timeout.\<close>

lemma wait_for_all_slices_late:
  assumes "wait_for_all_slices R E J T env job n s = Some (Err e, s')"
  shows "mono_now T s + slice_timeout_ms env * 1000000 \<le> mono_now T s'"
proof -
  obtain rx N where reg: "register_job job (the_notifier T s) = (rx, N)"
    by (cases "register_job job (the_notifier T s)")
  let ?s = "with_notifier T N s"
  let ?d = "mono_now T ?s + slice_timeout_ms env * 1000000"
  obtain q c s1 where loop: "wait_loop R E J T job n rx ?d (collector_init n) ?s = Some (q, c, s1)"
    using assms by (auto simp: wait_for_all_slices_def reg Let_def split: option.splits)
  with assms have "q \<noteq> Ok ()" and s': "s' = with_notifier T (unregister_job job (the_notifier T s1)) s1"
    by (auto simp: wait_for_all_slices_def reg Let_def split: sum.splits)
  then have "?d \<le> mono_now T s1" using wait_loop_late [OF loop] by blast
  moreover have "mono_now T s \<le> mono_now T ?s" "mono_now T s1 \<le> mono_now T s'"
    by (simp_all add: s' table_clock)
  ultimately show ?thesis by linarith
qed

text \<open>
  A slice that stays missing, or that nothing readable is stored for, makes the wait time out.
\<close>

lemma wait_for_all_slices_missing:
  assumes keep: "\<And>m m'. I m \<Longrightarrow> rely m m' \<Longrightarrow> I m'"
    and bad: "\<And>m b x. I m \<Longrightarrow> m (slice_key job i) = Some b \<Longrightarrow> b \<noteq> [] \<Longrightarrow>
      decode_slice E J i b \<noteq> Ok (Some x)"
    and "I (view s)" "i < n"
  shows "\<exists>s'. wait_for_all_slices R E J T env job n s = Some (Err (timeout_error job), s')"
proof -
  obtain r s' where run: "wait_for_all_slices R E J T env job n s = Some (r, s')"
    using wait_for_all_slices_returns [of E J env job n s] by auto
  show ?thesis
  proof (cases r)
    case (Inl e)
    with run have "e = timeout_error job" by (intro wait_for_all_slices_error) simp
    with run Inl show ?thesis by blast
  next
    case (Inr xs)
    have "length xs = n \<and> (\<forall>j < n. (\<lambda>j x. j \<noteq> i) j (xs ! j))"
      using wait_for_all_slices_law(2) [where I = I and P = "\<lambda>j x. j \<noteq> i", OF _ _ assms(3) run Inr]
        keep bad by blast
    with assms(4) show ?thesis by blast
  qed
qed

lemma aggregate_returns: "\<exists>y. aggregate R E J A T env gpu job n s = Some y"
  using wait_for_all_slices_returns [of E J env job n s]
  by (fastforce simp: aggregate_def Let_def split: option.splits sum.splits prod.splits)

lemma wait_for_all_slices_finds:
  assumes keep: "\<And>s s'. W s \<Longrightarrow> W s' \<Longrightarrow> rely (view s) (view s') \<Longrightarrow> slices_ready E J job n (view s) \<Longrightarrow>
      slices_ready E J job n (view s')"
    and up: "\<And>k s. W s \<Longrightarrow> \<exists>v s'. r_get R k s = (Ok v, s') \<and> W s'"
    and wait: "\<And>rx d s. W s \<Longrightarrow> W (wait_changed T rx d s)"
    and upd: "\<And>N s. W s \<Longrightarrow> W (with_notifier T N s)"
    and pass: "\<And>c s c' s'. W s \<Longrightarrow> read_pass R E J job [0..<n] c s = (c', s') \<Longrightarrow>
      W s' \<and> mono_now T s' \<le> mono_now T s + slack"
    and ready: "\<And>s'. W s' \<Longrightarrow>
      mono_now T (with_notifier T (snd (register_job job (the_notifier T s))) s)
        + slice_timeout_ms env * 1000000 \<le> mono_now T s' + slack \<Longrightarrow> slices_ready E J job n (view s')"
    and W: "W s"
  shows "\<exists>xs s'. wait_for_all_slices R E J T env job n s = Some (Ok xs, s')"
proof -
  obtain r s' where run: "wait_for_all_slices R E J T env job n s = Some (r, s')"
    using wait_for_all_slices_returns [of E J env job n s] by auto
  obtain rx N where reg: "register_job job (the_notifier T s) = (rx, N)"
    by (cases "register_job job (the_notifier T s)")
  let ?s = "with_notifier T N s"
  let ?d = "mono_now T ?s + slice_timeout_ms env * 1000000"
  obtain q c s1 where loop: "wait_loop R E J T job n rx ?d (collector_init n) ?s = Some (q, c, s1)"
    using run by (auto simp: wait_for_all_slices_def reg Let_def split: option.splits)
  have "q = Ok ()"
    using upd [OF W]
    by (intro wait_loop_finds [where W = W and T = T, OF keep up wait _ pass _ collector_inv_init loop])
      (use ready reg in auto)
  with run loop show ?thesis
    by (auto simp: wait_for_all_slices_def reg Let_def)
qed

end

end
