(* ===== verification/Service.thy ===== *)
theory Service
  imports Aggregator
begin

text \<open>
  The gRPC service of the gateway (\<open>gateway-rs/src/service.rs\<close>) and the program's start-up
  (\<open>gateway-rs/src/main.rs\<close>). A handler's answer is a reply, an error status, or a panic,
  which ends the request without either.
\<close>

datatype status_code = InvalidArgument | Internal

datatype 'a rpc = Reply 'a | Status status_code string | Panic string

record task_request =
  tr_job_id :: string
  tr_task :: string
  tr_vector :: "f32 list"

record task_response =
  ts_message :: string
  ts_result :: "f32 list"

record result_response =
  rr_job_id :: string
  rr_status :: string
  rr_result :: "f32 list"
  rr_message :: string
  rr_completed_slices :: int
  rr_total_slices :: int

text \<open>The service, with everything of the process it uses.\<close>

record 's gateway =
  g_redis :: "'s redis"
  g_serde :: serde
  g_endian :: endian
  g_arith :: "(f64, f32) arith"
  g_runtime :: "'s runtime"
  g_env :: environment
  g_gpu :: "cuda option"
  g_nccl_dispatch :: bool
  g_world_size :: nat

section \<open>Slicing\<close>

definition chunk_take :: "nat \<Rightarrow> nat \<Rightarrow> nat \<Rightarrow> nat" where
  "chunk_take len n i = len div n + (if i < len mod n then 1 else 0)"

fun even_chunks_from :: "'a list \<Rightarrow> nat \<Rightarrow> nat list \<Rightarrow> nat \<Rightarrow> 'a list list" where
  "even_chunks_from data n [] start = []"
| "even_chunks_from data n (i # is) start =
     (let k = chunk_take (length data) n i
      in take k (drop start data) # even_chunks_from data n is (start + k))"

definition even_chunks :: "'a list \<Rightarrow> nat \<Rightarrow> 'a list list" where
  "even_chunks data n = even_chunks_from data n [0..<n] 0"

text \<open>\<open>(vector_size + num_slices - 1) / num_slices\<close> in 64 bits; \<open>chunks(0)\<close> panics.\<close>

definition slice_size :: "environment \<Rightarrow> nat \<Rightarrow> nat" where
  "slice_size env vector_size =
     ((vector_size + num_slices env) mod 2 ^ 64 + 2 ^ 64 - 1) mod 2 ^ 64 div num_slices env"

definition make_slices :: "environment \<Rightarrow> bool \<Rightarrow> nat \<Rightarrow> 'a list \<Rightarrow> 'a list list rpc" where
  "make_slices env nccl_dispatch world_size vector =
     (if nccl_dispatch then
        (if length vector < world_size
         then Status InvalidArgument (''vector length '' @ dec (length vector) @ '' < world_size '' @
           dec world_size @ '': cannot give every GPU rank a non-empty slice in NCCL mode'')
         else Reply (even_chunks vector world_size))
      else if slice_size env (length vector) = 0 then Panic ''chunk size must be non-zero''
      else Reply (chunks (slice_size env (length vector)) vector))"

section \<open>SubmitTask\<close>

definition task_json :: "string \<Rightarrow> nat \<Rightarrow> string \<Rightarrow> f64 list \<Rightarrow> json" where
  "task_json job_id slice_id task data =
     JObj [(''data'', json_f64s data), (''job_id'', JStr job_id), (''slice_id'', JPos slice_id),
       (''task'', JStr task)]"

definition slice_subject :: "bool \<Rightarrow> nat \<Rightarrow> string" where
  "slice_subject nccl_dispatch slice_id = (if nccl_dispatch then dec slice_id else ''task_queue'')"

definition task_messages :: "serde \<Rightarrow> bool \<Rightarrow> string \<Rightarrow> string \<Rightarrow> f64 list list \<Rightarrow> (string \<times> string) list" where
  "task_messages J nccl_dispatch job_id task slices =
     map (\<lambda>(slice_id, data). (slice_subject nccl_dispatch slice_id,
            to_text J (task_json job_id slice_id task data)))
       (zip [0..<length slices] slices)"

definition parse_floats :: "serde \<Rightarrow> (f64, f32) arith \<Rightarrow> string \<Rightarrow> f32 list result" where
  "parse_floats J A t =
     (case from_text J t of
        Err e \<Rightarrow> Err e
      | Ok j \<Rightarrow> (case de_vec_f64 j of Err e \<Rightarrow> Err e | Ok v \<Rightarrow> Ok (map (narrow A) v)))"

definition dispatch_task ::
  "'s gateway \<Rightarrow> string \<Rightarrow> string \<Rightarrow> f64 list list \<Rightarrow> 's \<Rightarrow> (task_response rpc \<times> 's) option" where
  "dispatch_task G job_id task slices s =
     (case publish_all (bus_publish (g_runtime G))
         (task_messages (g_serde G) (g_nccl_dispatch G) job_id task slices) s of
        (Err e, s') \<Rightarrow> Some (Status Internal (''Publish failed: '' @ e), s')
      | (Ok _, s') \<Rightarrow>
          (case aggregate (g_redis G) (g_endian G) (g_serde G) (g_arith G) (g_runtime G) (g_env G)
              (g_gpu G) job_id (length slices) s' of
             None \<Rightarrow> None
           | Some (Err e, s'') \<Rightarrow> Some (Status Internal (''Aggregation failed: '' @ e), s'')
           | Some (Ok result_str, s'') \<Rightarrow>
               (case parse_floats (g_serde G) (g_arith G) result_str of
                  Err e \<Rightarrow> Some (Status Internal (''Failed to parse result: '' @ e), s'')
                | Ok result_floats \<Rightarrow>
                    Some (Reply \<lparr>ts_message = ''OK'', ts_result = result_floats\<rparr>, s''))))"

definition submit_task :: "'s gateway \<Rightarrow> task_request \<Rightarrow> 's \<Rightarrow> (task_response rpc \<times> 's) option" where
  "submit_task G req s =
     (if tr_task req \<noteq> ''softmax''
      then Some (Status InvalidArgument ''only softmax task supported'', s)
      else
        let vector = map (widen (g_arith G)) (tr_vector req)
        in if vector = [] then Some (Status InvalidArgument ''empty input vector'', s)
           else (case make_slices (g_env G) (g_nccl_dispatch G) (g_world_size G) vector of
               Status c msg \<Rightarrow> Some (Status c msg, s)
             | Panic msg \<Rightarrow> Some (Panic msg, s)
             | Reply slices \<Rightarrow>
                 let now = sys_secs (g_runtime G) s;
                     metadata = \<lparr>jm_job_id = tr_job_id req, jm_task_type = tr_task req,
                       jm_total_slices = length slices, jm_created_at = now,
                       jm_status = ''submitted''\<rparr>
                 in (case set_job_metadata (g_redis G) (g_serde G) (g_env G) (tr_job_id req) metadata s of
                       (Err e, s') \<Rightarrow> Some (Status Internal ''Failed to store job metadata'', s')
                     | (Ok _, s') \<Rightarrow> dispatch_task G (tr_job_id req) (tr_task req) slices s')))"

section \<open>GetResult\<close>

definition ready_response :: "string \<Rightarrow> nat \<Rightarrow> int \<Rightarrow> f32 list result \<Rightarrow> result_response" where
  "ready_response job_id total_slices ttl r =
     (case r of
        Err e \<Rightarrow> \<lparr>rr_job_id = job_id, rr_status = ''failed'', rr_result = [],
            rr_message = ''Failed to parse result: '' @ e,
            rr_completed_slices = to_i32 total_slices, rr_total_slices = to_i32 total_slices\<rparr>
      | Ok result \<Rightarrow> \<lparr>rr_job_id = job_id, rr_status = ''ready'', rr_result = result,
            rr_message = (if ttl > 0 then ''Result ready (expires in '' @ dec_int ttl @ '' seconds)''
              else ''Result ready''),
            rr_completed_slices = to_i32 total_slices, rr_total_slices = to_i32 total_slices\<rparr>)"

definition progress_response :: "string \<Rightarrow> nat \<Rightarrow> nat \<Rightarrow> result_response" where
  "progress_response job_id total_slices completed =
     \<lparr>rr_job_id = job_id,
      rr_status = (if completed = 0 then ''pending'' else ''running''),
      rr_result = [],
      rr_message =
        (if completed = 0 then ''Job submitted, waiting for processing to start''
         else if completed < total_slices
         then ''Processing in progress: '' @ dec completed @ ''/'' @ dec total_slices @
           '' slices completed''
         else ''All slices completed, aggregating results...''),
      rr_completed_slices = to_i32 completed, rr_total_slices = to_i32 total_slices\<rparr>"

definition get_result :: "'s gateway \<Rightarrow> string \<Rightarrow> 's \<Rightarrow> result_response rpc \<times> 's" where
  "get_result G job_id s =
     (case get_job_metadata (g_redis G) (g_serde G) job_id s of
        (Err e, s') \<Rightarrow> (Status Internal (''Redis error: '' @ e), s')
      | (Ok None, s') \<Rightarrow>
          (Reply \<lparr>rr_job_id = job_id, rr_status = ''not_found'', rr_result = [],
             rr_message = ''Job not found or expired'', rr_completed_slices = 0,
             rr_total_slices = 0\<rparr>, s')
      | (Ok (Some metadata), s') \<Rightarrow>
          (case get_str (g_redis G) (result_key job_id) s' of
             (Ok (Some raw), s2) \<Rightarrow>
               (case ttl_of (g_redis G) (result_key job_id) s2 of
                  (ttl, s3) \<Rightarrow>
                    (Reply (ready_response job_id (jm_total_slices metadata) ttl
                       (parse_floats (g_serde G) (g_arith G) raw)), s3))
           | (_, s2) \<Rightarrow>
               (case get_completed_slice_count (g_redis G) job_id (jm_total_slices metadata) s2 of
                  (completed, s3) \<Rightarrow>
                    (Reply (progress_response job_id (jm_total_slices metadata) completed), s3))))"

section \<open>Start-up\<close>

text \<open>
  \<open>main\<close> up to the point where it listens. The outcomes of parsing the URL of Redis (for
  the manager and again for the notifier), of connecting to it and of parsing the listen address
  are parameters.
\<close>

definition gateway_main ::
  "'z zmq \<Rightarrow> (string \<Rightarrow> unit result) \<Rightarrow> (string \<Rightarrow> unit result) \<Rightarrow> (string \<Rightarrow> unit result) \<Rightarrow>
    environment \<Rightarrow> (publisher \<times> bool \<times> nat) result" where
  "gateway_main Z redis_open redis_connect parse_addr env =
     (let addr = env_or env ''GATEWAY_ADDR'' ''0.0.0.0:50051'';
          transport = env_or env ''TRANSPORT'' ''zmq'';
          nccl_dispatch = (transport = ''zmq_nccl'');
          world_size = gateway_world_size env;
          bus = (if transport = ''zmq'' then
                   (case zmq_publisher_new Z env of Err e \<Rightarrow> Err e | Ok (c, _) \<Rightarrow> Ok (ZmqPublisher c))
                 else if transport = ''zmq_nccl'' then
                   (case zmq_multi_publisher_new Z env world_size of
                      Err e \<Rightarrow> Err e | Ok cs \<Rightarrow> Ok (ZmqMultiPublisher (map fst cs)))
                 else Err (''unknown TRANSPORT '' @ quoted transport @ '' (valid: zmq | zmq_nccl)''))
      in case bus of
           Err e \<Rightarrow> Err e
         | Ok publisher \<Rightarrow>
             if \<not> is_connected publisher
             then Err (''Failed to connect transport '' @ quoted transport)
             else (case redis_manager_new redis_open redis_connect env of
                 Err e \<Rightarrow> Err e
               | Ok _ \<Rightarrow> (case redis_open (redis_url env) of
                   Err e \<Rightarrow> Err e
                 | Ok _ \<Rightarrow> (case parse_addr addr of
                     Err e \<Rightarrow> Err e
                   | Ok _ \<Rightarrow> Ok (publisher, nccl_dispatch, world_size)))))"

section \<open>The slices partition the vector\<close>

definition chunk_start :: "nat \<Rightarrow> nat \<Rightarrow> nat \<Rightarrow> nat" where
  "chunk_start len n i = i * (len div n) + min i (len mod n)"

lemma chunk_start_Suc: "chunk_start len n (Suc i) = chunk_start len n i + chunk_take len n i"
  by (simp add: chunk_start_def chunk_take_def)

lemma chunk_start_n: "0 < n \<Longrightarrow> chunk_start len n n = len"
proof -
  assume "0 < n"
  then have "len mod n < n" by simp
  then show ?thesis by (simp add: chunk_start_def)
qed

lemma even_chunks_from_eq:
  "even_chunks_from data n [i..<n] (chunk_start (length data) n i) =
    map (\<lambda>j. take (chunk_take (length data) n j) (drop (chunk_start (length data) n j) data)) [i..<n]"
proof (induction "n - i" arbitrary: i)
  case (Suc k)
  then have i: "[i..<n] = i # [Suc i..<n]" by (intro upt_conv_Cons) simp
  show ?case
    using Suc.hyps(1) [of "Suc i"] Suc.hyps(2)
    by (simp add: i chunk_start_Suc Let_def)
qed simp

lemma even_chunks_eq:
  "even_chunks data n =
    map (\<lambda>j. take (chunk_take (length data) n j) (drop (chunk_start (length data) n j) data)) [0..<n]"
  using even_chunks_from_eq [of data n 0] by (simp add: even_chunks_def chunk_start_def)

lemma concat_even_chunks:
  assumes "0 < n"
  shows "concat (even_chunks data n) = data"
proof -
  have "concat (map (\<lambda>j. take (chunk_take (length data) n j) (drop (chunk_start (length data) n j) data))
      [0..<m]) = take (chunk_start (length data) n m) data" for m
  proof (induction m)
    case 0
    then show ?case by (simp add: chunk_start_def)
  next
    case (Suc m)
    then show ?case by (simp add: chunk_start_Suc take_add)
  qed
  from this [of n] show ?thesis using assms by (simp add: even_chunks_eq chunk_start_n)
qed

lemma length_even_chunks [simp]: "length (even_chunks data n) = n"
  by (simp add: even_chunks_eq)

lemma chunk_start_mono: "i \<le> j \<Longrightarrow> chunk_start len n i \<le> chunk_start len n j"
  by (auto simp: chunk_start_def intro!: add_mono mult_right_mono)

lemma nth_even_chunks:
  assumes "i < n"
  shows "length (even_chunks data n ! i) = chunk_take (length data) n i"
proof -
  have "chunk_start (length data) n (Suc i) \<le> chunk_start (length data) n n"
    using assms by (intro chunk_start_mono) simp
  then have "chunk_start (length data) n i + chunk_take (length data) n i \<le> length data"
    using assms by (simp add: chunk_start_Suc chunk_start_n)
  then show ?thesis using assms by (simp add: even_chunks_eq)
qed

lemma even_chunks_nonempty:
  assumes "n \<le> length data" "c \<in> set (even_chunks data n)"
  shows "c \<noteq> []"
proof -
  obtain i where i: "i < n" "c = even_chunks data n ! i"
    using assms(2) by (auto simp: in_set_conv_nth)
  then have "0 < chunk_take (length data) n i"
    using assms(1) by (simp add: chunk_take_def div_greater_zero_iff)
  with i nth_even_chunks [of i n data] show ?thesis by auto
qed

lemma slice_size_eq:
  assumes "v + num_slices env \<le> 2 ^ 64" "0 < v"
  shows "slice_size env v = (v + num_slices env - 1) div num_slices env"
proof (cases "v + num_slices env = 2 ^ 64")
  case True
  then show ?thesis by (simp add: slice_size_def)
next
  case False
  with assms have lt: "v + num_slices env < 2 ^ 64" by simp
  have "(v + num_slices env + 2 ^ 64 - 1) mod 2 ^ 64 = (v + num_slices env - 1 + 2 ^ 64) mod 2 ^ 64"
    using assms(2) by simp
  also have "\<dots> = v + num_slices env - 1" using lt by simp
  finally show ?thesis using lt by (simp add: slice_size_def)
qed

lemma slice_size_overflow:
  assumes "2 ^ 64 < v + num_slices env" "v < 2 ^ 64"
  shows "slice_size env v = 0"
proof -
  define k where "k = v + num_slices env - 2 ^ 64"
  have k: "0 < k" "v + num_slices env = k + 2 ^ 64" "k < 2 ^ 64" "k \<le> num_slices env"
    using assms num_slices_bounds [of env] by (auto simp: k_def)
  have "(k + 2 ^ 64 - 1) mod 2 ^ 64 = (k - 1 + 2 ^ 64) mod 2 ^ 64" using k(1) by simp
  also have "\<dots> = k - 1" using k(3) by simp
  finally have "slice_size env v = (k - 1) div num_slices env"
    using k by (simp add: slice_size_def)
  also have "\<dots> = 0" using k by simp
  finally show ?thesis .
qed

lemma chunks_count:
  assumes "0 < n" "0 < length xs"
  shows "length (chunks ((length xs + n - 1) div n) xs) \<le> n"
proof -
  define k where "k = (length xs + n - 1) div n"
  have "k * n + (length xs + n - 1) mod n = length xs + n - 1" by (simp add: k_def)
  moreover have "(length xs + n - 1) mod n \<le> n - 1" using assms(1) by (simp add: Suc_leI less_Suc_eq_le [symmetric])
  ultimately have "length xs \<le> n * k" using assms by (simp add: mult.commute)
  moreover have k: "0 < k" using assms by (cases xs) (simp_all add: k_def div_greater_zero_iff)
  ultimately have "length xs + k - 1 < (n + 1) * k" by simp
  then have "(length xs + k - 1) div k < n + 1" using k by (simp add: less_mult_imp_div_less)
  then show ?thesis unfolding k_def [symmetric] using k by (simp add: length_chunks)
qed

text \<open>Whatever the mode, the slices handed out are the vector cut into non-empty pieces.\<close>

lemma make_slices_partition:
  assumes "make_slices env nccl ws vector = Reply slices" "vector \<noteq> []" "0 < ws"
  shows "concat slices = vector" and "c \<in> set slices \<Longrightarrow> c \<noteq> []" and "slices \<noteq> []"
proof -
  show concat: "concat slices = vector"
    using assms by (auto simp: make_slices_def concat_even_chunks split: if_splits)
  show "c \<in> set slices \<Longrightarrow> c \<noteq> []"
    using assms even_chunks_nonempty [of ws vector c] chunks_bounds [of c _ vector]
    by (auto simp: make_slices_def split: if_splits)
  show "slices \<noteq> []" using concat assms(2) by auto
qed

section \<open>Properties\<close>

text \<open>
  C7: the slices handed to the workers are the vector cut into non-empty pieces: nothing is lost,
  repeated or reordered. In NCCL mode there is one for every rank, otherwise at most as many as
  configured.
\<close>

theorem slices_partition_vector:
  assumes "make_slices env nccl_dispatch world_size vector = Reply slices"
    and "vector \<noteq> []" "0 < world_size" "length vector + num_slices env \<le> 2 ^ 64"
  shows "concat slices = vector \<and> [] \<notin> set slices \<and> 0 < length slices \<and>
    (if nccl_dispatch then length slices = world_size else length slices \<le> num_slices env)"
proof -
  have "length slices \<le> num_slices env" if "\<not> nccl_dispatch"
    using assms that chunks_count [of "num_slices env" vector] num_slices_bounds [of env]
    by (auto simp: make_slices_def slice_size_eq split: if_splits)
  moreover have "length slices = world_size" if "nccl_dispatch"
    using assms that by (auto simp: make_slices_def split: if_splits)
  ultimately show ?thesis
    using make_slices_partition [OF assms(1-3)] by auto
qed

lemma slices_partition_vector_witness:
  "concat [[1, 2, 3], [4, 5]] = [1, 2, 3, 4, 5 :: nat] \<and> [] \<notin> set [[1, 2, 3], [4, 5 :: nat]] \<and>
    0 < length [[1, 2, 3], [4, 5 :: nat]] \<and>
    (if True then length [[1, 2, 3], [4, 5 :: nat]] = 2 else length [[1, 2, 3], [4, 5 :: nat]] \<le> num_slices (\<lambda>_. None))"
proof (rule slices_partition_vector)
  show "make_slices (\<lambda>_. None) True 2 [1, 2, 3, 4, 5 :: nat] = Reply [[1, 2, 3], [4, 5]]"
    by (simp add: make_slices_def even_chunks_def chunk_take_def Let_def upt_rec)
qed (simp_all add: num_slices_def env_uint_def)

text \<open>
  C38: in NCCL mode the split is as even as it can be: the first \<open>len mod n\<close> slices have one
  entry more than the others, and no slice is empty once there is an entry for every rank.
\<close>

theorem even_chunks_even:
  assumes "0 < n" "n \<le> length data" "i < n"
  shows "length (even_chunks data n ! i) = length data div n + (if i < length data mod n then 1 else 0)
    \<and> even_chunks data n ! i \<noteq> []"
  using assms nth_even_chunks [OF assms(3), of data] even_chunks_nonempty [OF assms(2)]
  by (simp add: chunk_take_def)

lemma even_chunks_even_witness:
  "length (even_chunks [1, 2, 3, 4, 5 :: nat] 2 ! 0) = 3 \<and> even_chunks [1, 2, 3, 4, 5 :: nat] 2 ! 0 \<noteq> []"
  using even_chunks_even [of 2 "[1, 2, 3, 4, 5 :: nat]" 0] by simp

text \<open>
  C40: a \<open>NUM_SLICES\<close> so large that the length plus the number of slices exceeds 64 bits makes the
  rounded-up division wrap to a chunk size of zero, and the request panics.
\<close>

theorem huge_num_slices_panics:
  assumes "2 ^ 64 < length vector + num_slices env" "length vector < 2 ^ 64"
  shows "make_slices env False world_size vector = Panic ''chunk size must be non-zero''"
  using slice_size_overflow [OF assms] by (simp add: make_slices_def)

lemma huge_num_slices_panics_witness:
  "make_slices (\<lambda>k. if k = ''NUM_SLICES'' then Some (dec (2 ^ 64 - 1)) else None) False 4 [1, 2 :: nat] =
    Panic ''chunk size must be non-zero''"
  by (rule huge_num_slices_panics) (simp_all add: num_slices_def env_uint_def)

end
