(* ===== verification/Worker.thy ===== *)
theory Worker
  imports Redis Wire Gpu Notifier
begin

text \<open>
  The worker's handling of tasks (\<open>worker-rs/src/handler.rs\<close>), the NCCL loop and the start-up
  (\<open>worker-rs/src/main.rs\<close>). \<open>gpu\<close> is the device of a build with the feature \<open>cuda\<close>, \<open>None\<close>
  for a CPU build; \<open>log_info\<close> says whether the log level evaluates the fields of \<open>info!\<close>.
\<close>

section \<open>Task messages\<close>

record task_message =
  tm_job_id :: string
  tm_slice_id :: nat
  tm_task :: string
  tm_data :: "f64 list"

definition as_vec_f64 :: "json \<Rightarrow> f64 list option" where
  "as_vec_f64 j = (case de_vec_f64 j of Err _ \<Rightarrow> None | Ok v \<Rightarrow> Some v)"

fun task_of_json :: "json \<Rightarrow> task_message result" where
  "task_of_json (JObj kvs) =
     (case de_field as_str kvs ''job_id'' of Err e \<Rightarrow> Err e
      | Ok job_id \<Rightarrow> (case de_field as_usize kvs ''slice_id'' of Err e \<Rightarrow> Err e
      | Ok slice_id \<Rightarrow> (case de_field as_str kvs ''task'' of Err e \<Rightarrow> Err e
      | Ok task \<Rightarrow> (case de_field as_vec_f64 kvs ''data'' of Err e \<Rightarrow> Err e
      | Ok data \<Rightarrow> Ok \<lparr>tm_job_id = job_id, tm_slice_id = slice_id, tm_task = task,
          tm_data = data\<rparr>))))"
| "task_of_json (JArr [j, i, t, d]) =
     (case de_elem as_str j ''job_id'' of Err e \<Rightarrow> Err e
      | Ok job_id \<Rightarrow> (case de_elem as_usize i ''slice_id'' of Err e \<Rightarrow> Err e
      | Ok slice_id \<Rightarrow> (case de_elem as_str t ''task'' of Err e \<Rightarrow> Err e
      | Ok task \<Rightarrow> (case de_elem as_vec_f64 d ''data'' of Err e \<Rightarrow> Err e
      | Ok data \<Rightarrow> Ok \<lparr>tm_job_id = job_id, tm_slice_id = slice_id, tm_task = task,
          tm_data = data\<rparr>))))"
| "task_of_json _ = Err ''invalid type or length: expected struct TaskMessage''"

definition parse_task :: "serde \<Rightarrow> bytes \<Rightarrow> task_message result" where
  "parse_task J raw =
     (case from_raw J raw of Err e \<Rightarrow> Err e | Ok j \<Rightarrow> task_of_json j)"

section \<open>Handling a task\<close>

definition compute_partial ::
  "('d, 's) arith \<Rightarrow> cuda option \<Rightarrow> 'd list \<Rightarrow> ('d, 's) partial_stats result" where
  "compute_partial A gpu data =
     (case gpu of
        Some D \<Rightarrow> gpu_partial_softmax A D (map (narrow A) data)
      | None \<Rightarrow> Ok (softmax_partial A data))"

definition worker_result_key :: "string \<Rightarrow> nat \<Rightarrow> string" where
  "worker_result_key job_id slice_id = ''result:'' @ job_id @ '':'' @ dec slice_id"

definition pub_channel :: "string \<Rightarrow> string" where
  "pub_channel job_id = ''slice_done:'' @ job_id"

definition write_result :: "'s redis \<Rightarrow> string \<Rightarrow> nat \<Rightarrow> bytes \<Rightarrow> 's \<Rightarrow> unit result \<times> 's" where
  "write_result R job_id slice_id payload s =
     (case r_set R (worker_result_key job_id slice_id) payload s of
        (Err e, s') \<Rightarrow> (Err (''Redis SET '' @ worker_result_key job_id slice_id), s')
      | (Ok _, s') \<Rightarrow>
          (case r_publish R (pub_channel job_id) (as_bytes (dec slice_id)) s' of
             (Err e, s'') \<Rightarrow> (Err (''Redis PUBLISH '' @ pub_channel job_id), s'')
           | (Ok _, s'') \<Rightarrow> (Ok (), s'')))"

text \<open>\<open>&job_id[..job_id.len().min(8)]\<close> panics unless the cut is at a character boundary.\<close>

definition log_prefix_ok :: "string \<Rightarrow> bool" where
  "log_prefix_ok job_id \<longleftrightarrow> length job_id \<le> 8 \<or> \<not> is_cont (of_char (job_id ! 8))"

datatype task_end = Done | Failed string | Panicked

definition handle_task ::
  "'s redis \<Rightarrow> serde \<Rightarrow> (f64, f32) arith \<Rightarrow> cuda option \<Rightarrow> bool \<Rightarrow> bytes \<Rightarrow> 's \<Rightarrow> task_end \<times> 's" where
  "handle_task R J A gpu log_info raw s =
     (case parse_task J raw of
        Err e \<Rightarrow> (Failed ''deserialize task message'', s)
      | Ok msg \<Rightarrow>
          if tm_task msg \<noteq> ''softmax''
          then (Failed (''unknown task '' @ tm_task msg @ '' - only softmax is supported''), s)
          else if tm_data msg = []
          then (Failed (''empty data slice for job '' @ tm_job_id msg @ '' slice '' @
            dec (tm_slice_id msg)), s)
          else (case compute_partial A gpu (tm_data msg) of
              Err e \<Rightarrow> (Failed e, s)
            | Ok stats \<Rightarrow>
                (case write_result R (tm_job_id msg) (tm_slice_id msg) (encode_partial stats) s of
                   (Err e, s') \<Rightarrow> (Failed e, s')
                 | (Ok _, s') \<Rightarrow>
                     (if log_info \<and> \<not> log_prefix_ok (tm_job_id msg) then Panicked else Done, s'))))"

section \<open>The NCCL loop\<close>

text \<open>
  One job after the other: \<open>coll k\<close> is the pair of collectives of the \<open>k\<close>-th job this rank
  computes. A bad message is skipped; an error of the socket, of the GPU or of Redis ends the
  loop, and so does the panic of the log line.
\<close>

datatype loop_end = Waiting | Stopped string | Crashed

fun nccl_loop ::
  "'s redis \<Rightarrow> serde \<Rightarrow> (f64, f32) arith \<Rightarrow> cuda \<Rightarrow>
    (nat \<Rightarrow> (f32 \<Rightarrow> f32 result) \<times> (f32 \<Rightarrow> f32 result)) \<Rightarrow> bool \<Rightarrow>
    nat \<Rightarrow> bytes result list \<Rightarrow> 's \<Rightarrow> loop_end \<times> 's" where
  "nccl_loop R J A D coll log_info k [] s = (Waiting, s)"
| "nccl_loop R J A D coll log_info k (Err e # fs) s = (Stopped (''ZMQ recv: '' @ e), s)"
| "nccl_loop R J A D coll log_info k (Ok raw # fs) s =
     (case parse_task J raw of
        Err e \<Rightarrow> nccl_loop R J A D coll log_info k fs s
      | Ok msg \<Rightarrow>
          if tm_task msg \<noteq> ''softmax'' then nccl_loop R J A D coll log_info k fs s
          else (case all_reduce_softmax A D (fst (coll k)) (snd (coll k)) (map (narrow A) (tm_data msg)) of
              Err e \<Rightarrow> (Stopped e, s)
            | Ok probs \<Rightarrow>
                (case write_result R (tm_job_id msg) (tm_slice_id msg) (encode_normalized probs) s of
                   (Err e, s') \<Rightarrow> (Stopped e, s')
                 | (Ok _, s') \<Rightarrow>
                     if log_info \<and> \<not> log_prefix_ok (tm_job_id msg) then (Crashed, s')
                     else nccl_loop R J A D coll log_info (Suc k) fs s')))"

section \<open>NCCL rendezvous\<close>

text \<open>
  \<open>nccl_rendezvous\<close>: rank 0 publishes the 128-byte identifier in Redis, the others poll for it
  200 times; every rank then announces itself and polls 200 times until all are there. \<open>sleep\<close>
  is the timer (milliseconds), \<open>new_id\<close> the identifier NCCL generates.
\<close>

definition nccl_uid_key :: string where "nccl_uid_key = ''nccl_uid''"

definition nccl_uid_ttl :: nat where "nccl_uid_ttl = 60"

definition nccl_ready_key :: "nat \<Rightarrow> string" where
  "nccl_ready_key r = ''nccl_ready:'' @ dec r"

fun await_uid :: "'s redis \<Rightarrow> (nat \<Rightarrow> 's \<Rightarrow> 's) \<Rightarrow> nat \<Rightarrow> 's \<Rightarrow> bytes option result \<times> 's" where
  "await_uid R sleep 0 s = (Ok None, s)"
| "await_uid R sleep (Suc left) s =
     (case r_get R nccl_uid_key s of
        (Err e, s') \<Rightarrow> (Err ''Redis GET nccl_uid'', s')
      | (Ok (Some b), s') \<Rightarrow> (Ok (Some b), s')
      | (Ok None, s') \<Rightarrow> await_uid R sleep left (sleep 50 s'))"

fun count_ready :: "'s redis \<Rightarrow> nat list \<Rightarrow> nat \<Rightarrow> 's \<Rightarrow> nat result \<times> 's" where
  "count_ready R [] ready s = (Ok ready, s)"
| "count_ready R (r # rs) ready s =
     (case get_str R (nccl_ready_key r) s of
        (Err e, s') \<Rightarrow> (Err ''Redis GET nccl_ready'', s')
      | (Ok v, s') \<Rightarrow> count_ready R rs (if v \<noteq> None then ready + 1 else ready) s')"

fun await_ready :: "'s redis \<Rightarrow> (nat \<Rightarrow> 's \<Rightarrow> 's) \<Rightarrow> nat \<Rightarrow> nat \<Rightarrow> nat \<Rightarrow> 's \<Rightarrow> unit result \<times> 's" where
  "await_ready R sleep rank world_size 0 s = (Ok (), s)"
| "await_ready R sleep rank world_size (Suc left) s =
     (case count_ready R [0..<world_size] 0 s of
        (Err e, s') \<Rightarrow> (Err e, s')
      | (Ok ready, s') \<Rightarrow>
          if ready = world_size then (Ok (), s')
          else if left = 0 then (Err (''rank '' @ dec rank @ '': not all ranks ready in time''), s')
          else await_ready R sleep rank world_size left (sleep 50 s'))"

definition rendezvous_id ::
  "'s redis \<Rightarrow> (nat \<Rightarrow> 's \<Rightarrow> 's) \<Rightarrow> bytes result \<Rightarrow> nat \<Rightarrow> 's \<Rightarrow> bytes result \<times> 's" where
  "rendezvous_id R sleep new_id rank s =
     (if rank = 0 then
        (case new_id of Err e \<Rightarrow> (Err (''NCCL Id::new: '' @ e), s)
         | Ok b \<Rightarrow> (case r_set_ex R nccl_uid_key b nccl_uid_ttl s of
              (Err e, s') \<Rightarrow> (Err ''Redis SET nccl_uid'', s')
            | (Ok _, s') \<Rightarrow> (Ok b, s')))
      else
        (case await_uid R sleep 200 s of
           (Err e, s') \<Rightarrow> (Err e, s')
         | (Ok None, s') \<Rightarrow> (Err (''rank '' @ dec rank @ '': timed out waiting for NCCL UID''), s')
         | (Ok (Some b), s') \<Rightarrow> (Ok b, s')))"

definition nccl_rendezvous ::
  "'s redis \<Rightarrow> (nat \<Rightarrow> 's \<Rightarrow> 's) \<Rightarrow> bytes result \<Rightarrow> nat \<Rightarrow> nat \<Rightarrow> 's \<Rightarrow> bytes result \<times> 's" where
  "nccl_rendezvous R sleep new_id rank world_size s =
     (case rendezvous_id R sleep new_id rank s of
        (Err e, s1) \<Rightarrow> (Err e, s1)
      | (Ok b, s1) \<Rightarrow>
          (case r_set_ex R (nccl_ready_key rank) (as_bytes ''1'') nccl_uid_ttl s1 of
             (Err e, s2) \<Rightarrow> (Err ''Redis SET nccl_ready'', s2)
           | (Ok _, s2) \<Rightarrow>
               (case await_ready R sleep rank world_size 200 s2 of
                  (Err e, s3) \<Rightarrow> (Err e, s3)
                | (Ok _, s3) \<Rightarrow>
                    if length b = 128 then (Ok b, s3)
                    else (Err ''NCCL UID must be 128 bytes'', s3))))"

section \<open>An NCCL rank\<close>

text \<open>
  \<open>run_nccl\<close> of a build with the feature \<open>cuda\<close>: rendezvous, communicator, socket, loop. The device
  is the one numbered as the rank. \<open>frames\<close> is what the socket delivers.
\<close>

definition run_nccl ::
  "'s redis \<Rightarrow> serde \<Rightarrow> (f64, f32) arith \<Rightarrow> cuda \<Rightarrow> (nat \<Rightarrow> 's \<Rightarrow> 's) \<Rightarrow> bytes result \<Rightarrow>
    (nat \<Rightarrow> nat \<Rightarrow> bytes \<Rightarrow> unit result) \<Rightarrow> unit result \<Rightarrow> (string \<Rightarrow> unit result) \<Rightarrow>
    (nat \<Rightarrow> (f32 \<Rightarrow> f32 result) \<times> (f32 \<Rightarrow> f32 result)) \<Rightarrow> bool \<Rightarrow>
    nat \<Rightarrow> nat \<Rightarrow> string \<Rightarrow> bytes result list \<Rightarrow> 's \<Rightarrow> loop_end \<times> 's" where
  "run_nccl R J A D sleep new_id from_rank sock connect coll log_info rank world_size endpoint frames s =
     (case nccl_rendezvous R sleep new_id rank world_size s of
        (Err e, s') \<Rightarrow> (Stopped e, s')
      | (Ok nccl_id, s') \<Rightarrow>
          (case nccl_worker_new D from_rank rank world_size nccl_id of
             Err e \<Rightarrow> (Stopped (''NCCL init: '' @ e), s')
           | Ok _ \<Rightarrow>
               (case sock of
                  Err e \<Rightarrow> (Stopped (''ZMQ socket: '' @ e), s')
                | Ok _ \<Rightarrow>
                    (case connect endpoint of
                       Err e \<Rightarrow> (Stopped (''ZMQ connect '' @ endpoint @ '': '' @ e), s')
                     | Ok _ \<Rightarrow> nccl_loop R J A D coll log_info 0 frames s'))))"

section \<open>Start-up\<close>

datatype worker_mode =
    PullTasks string nat  \<comment> \<open>\<open>transport::zmq::run\<close>: endpoint, tasks in flight\<close>
  | NcclRank nat nat string  \<comment> \<open>rank, world size, endpoint\<close>

text \<open>\<open>run_nccl\<close> of a build without \<open>cuda\<close>: the ordinary loop on the rank's endpoint.\<close>

definition run_nccl_cpu :: "nat \<Rightarrow> nat \<Rightarrow> string \<Rightarrow> worker_mode" where
  "run_nccl_cpu rank world_size endpoint = PullTasks endpoint 1"

datatype worker_start = Serve worker_mode | Exit string | Abort string

text \<open>
  \<open>cuda\<close> is the build feature, \<open>gpu_start\<close> the outcome of initializing the device. A bad
  Redis URL is an error, a failed connection a panic (\<open>expect\<close>). Without the feature the NCCL transport falls back to the
  CPU path, one task at a time.
\<close>

definition worker_main ::
  "bool \<Rightarrow> (nat \<Rightarrow> unit result) \<Rightarrow> (string \<Rightarrow> unit result) \<Rightarrow> (string \<Rightarrow> unit result) \<Rightarrow>
    environment \<Rightarrow> worker_start" where
  "worker_main cuda gpu_start redis_open redis_connect env =
     (let cfg = worker_from_env env;
          redis_url = ''redis://'' @ redis_host cfg @ '':'' @ dec (redis_port cfg)
      in case redis_open redis_url of
           Err e \<Rightarrow> Exit e
         | Ok _ \<Rightarrow> case redis_connect redis_url of
           Err e \<Rightarrow> Abort (''Redis connection failed: '' @ e)
         | Ok _ \<Rightarrow>
             (case (if cuda \<and> transport cfg \<noteq> ''zmq_nccl'' then gpu_start (cuda_device cfg) else Ok ()) of
                Err e \<Rightarrow> Exit e
              | Ok _ \<Rightarrow>
                  if transport cfg = ''zmq'' then
                    Serve (PullTasks (zmq_pull_endpoint cfg) (num_workers cfg))
                  else if transport cfg = ''zmq_nccl'' then
                    (if nccl_rank cfg < 0 then Exit ''NCCL_RANK must be >= 0 for zmq_nccl transport''
                     else
                       let rank = nat (nccl_rank cfg);
                           endpoint = (if zmq_gateway_addr cfg \<noteq> ''''
                             then ''tcp://'' @ zmq_gateway_addr cfg @ '':'' @
                               dec (rank_port (Config.zmq_base_port cfg) rank)
                             else zmq_pull_endpoint cfg)
                       in if cuda then Serve (NcclRank rank (nccl_world_size cfg) endpoint)
                          else Serve (run_nccl_cpu rank (nccl_world_size cfg) endpoint))
                  else Exit (''unknown TRANSPORT '' @ transport cfg @ '' (valid: zmq | zmq_nccl)'')))"

section \<open>What handling a task does\<close>

lemma worker_result_key_eq: "worker_result_key job_id slice_id = slice_key job_id slice_id"
  by (simp add: worker_result_key_def slice_key_def)

lemma pub_channel_eq: "pub_channel job_id = done_prefix @ job_id"
  by (simp add: pub_channel_def done_prefix_def)

text \<open>The statistics a task with these data is answered with.\<close>

definition task_ready :: "serde \<Rightarrow> (f64, f32) arith \<Rightarrow> cuda option \<Rightarrow> bytes \<Rightarrow> task_message \<Rightarrow>
    (f64, f32) partial_stats \<Rightarrow> bool" where
  "task_ready J A gpu raw msg stats \<longleftrightarrow>
     parse_task J raw = Ok msg \<and> tm_task msg = ''softmax'' \<and> tm_data msg \<noteq> [] \<and>
     compute_partial A gpu (tm_data msg) = Ok stats"

lemma handle_task_ready:
  "task_ready J A gpu raw msg stats \<Longrightarrow>
    handle_task R J A gpu log_info raw s =
      (case write_result R (tm_job_id msg) (tm_slice_id msg) (encode_partial stats) s of
         (Err e, s') \<Rightarrow> (Failed e, s')
       | (Ok _, s') \<Rightarrow>
           (if log_info \<and> \<not> log_prefix_ok (tm_job_id msg) then Panicked else Done, s'))"
  by (simp add: handle_task_def task_ready_def)

lemma handle_task_not_ready:
  "\<nexists>msg stats. task_ready J A gpu raw msg stats \<Longrightarrow>
    \<exists>e. handle_task R J A gpu log_info raw s = (Failed e, s)"
  by (auto simp: handle_task_def task_ready_def split: sum.splits)

lemma handle_task_cases:
  assumes "handle_task R J A gpu log_info raw s = (r, s')"
  obtains (rejected) e where "\<nexists>msg stats. task_ready J A gpu raw msg stats" "r = Failed e" "s' = s"
  | (ready) msg stats q where "task_ready J A gpu raw msg stats"
      "write_result R (tm_job_id msg) (tm_slice_id msg) (encode_partial stats) s = (q, s')"
      "r = (case q of Err e \<Rightarrow> Failed e
        | Ok _ \<Rightarrow> if log_info \<and> \<not> log_prefix_ok (tm_job_id msg) then Panicked else Done)"
proof (cases "\<exists>msg stats. task_ready J A gpu raw msg stats")
  case True
  then obtain msg stats where t: "task_ready J A gpu raw msg stats" by blast
  obtain q s1 where "write_result R (tm_job_id msg) (tm_slice_id msg) (encode_partial stats) s = (q, s1)"
    by (cases "write_result R (tm_job_id msg) (tm_slice_id msg) (encode_partial stats) s")
  with assms show ?thesis using t
    by (intro ready [OF t, of q]) (auto simp: handle_task_ready [OF t] split: sum.splits)
next
  case False
  with handle_task_not_ready [OF this, of R log_info s] assms show ?thesis by (auto intro: rejected)
qed

context redis_server
begin

text \<open>
  The slice is in the store before its notification goes out; only a failed write may have left
  the store as it was.
\<close>

lemma write_result_law:
  assumes "write_result R job i payload s = (r, s')"
  shows "\<exists>q m m'. wrote q (view s) (slice_key job i) payload m \<and> rely m m' \<and> rely m' (view s') \<and>
    (r = Ok () \<longrightarrow> q = Ok ())"
proof -
  obtain q s1 where 1: "r_set R (slice_key job i) payload s = (q, s1)"
    by (cases "r_set R (slice_key job i) payload s")
  obtain m where m: "wrote q (view s) (slice_key job i) payload m" "rely m (view s1)"
    using set_law [OF 1] by blast
  show ?thesis
  proof (cases q)
    case (Inl e)
    with assms 1 have "r \<noteq> Ok ()" "s' = s1" by (auto simp: write_result_def worker_result_key_eq)
    with m show ?thesis using rely_refl by blast
  next
    case (Inr u)
    obtain p s2 where 2: "r_publish R (pub_channel job) (as_bytes (dec i)) s1 = (p, s2)"
      by (cases "r_publish R (pub_channel job) (as_bytes (dec i)) s1")
    have "s' = s2" using assms 1 2 Inr by (auto simp: write_result_def worker_result_key_eq split: sum.splits)
    with m publish_law [OF 2] Inr show ?thesis by auto
  qed
qed

lemma write_result_ok:
  assumes "write_result R job i payload s = (Ok (), s')"
  shows "rely ((view s)(slice_key job i \<mapsto> payload)) (view s')"
  using write_result_law [OF assms] rely_trans by (auto simp: wrote_def)

text \<open>An invariant of the keyspace that the slice of a ready task cannot break is kept.\<close>

lemma handle_task_inv:
  assumes keep: "\<And>m m'. I m \<Longrightarrow> rely m m' \<Longrightarrow> I m'"
    and slice: "\<And>m msg stats. I m \<Longrightarrow> task_ready J A gpu raw msg stats \<Longrightarrow>
      I (m(slice_key (tm_job_id msg) (tm_slice_id msg) \<mapsto> encode_partial stats))"
    and "I (view s)" and run: "handle_task R J A gpu log_info raw s = (r, s')"
  shows "I (view s')"
  using run
proof (cases rule: handle_task_cases)
  case rejected
  with assms show ?thesis by simp
next
  case (ready msg stats q)
  from write_result_law [OF ready(2)] obtain q' m m' where
    "wrote q' (view s) (slice_key (tm_job_id msg) (tm_slice_id msg)) (encode_partial stats) m"
    "rely m m'" "rely m' (view s')" by blast
  then show ?thesis
    using slice [OF assms(3) ready(1)] assms(3) keep by (auto simp: wrote_def split: if_splits) 
qed

end

section \<open>The rendezvous\<close>

context redis_server
begin

text \<open>
  What a poll saw was in the store at some moment between its start and its end; it may be gone
  again, since announcements expire.
\<close>

lemma count_ready_law:
  "count_ready R rs c s = (Ok n, s') \<Longrightarrow> rely (view s) (view s') \<and>
    n \<le> c + length (filter (\<lambda>r. \<exists>m. rely (view s) m \<and> rely m (view s') \<and> m (nccl_ready_key r) \<noteq> None) rs)"
proof (induction rs arbitrary: c s)
  case (Cons r rs)
  let ?seen = "\<lambda>s r. \<exists>m. rely (view s) m \<and> rely m (view s') \<and> m (nccl_ready_key r) \<noteq> None"
  obtain g s1 where g: "get_str R (nccl_ready_key r) s = (g, s1)"
    by (cases "get_str R (nccl_ready_key r) s")
  with Cons.prems obtain v where v: "g = Ok v" by (cases g) auto
  note run = Cons.prems [simplified g v count_ready.simps prod.case sum.case]
  note IH = Cons.IH [OF run]
  have r1: "rely (view s) (view s1)" by (rule get_str_law(1) [OF g])
  have whole: "rely (view s) (view s')" using IH r1 rely_trans by blast
  have "?seen s r'" if "?seen s1 r'" for r' using that r1 rely_trans by blast
  then have mono: "length (filter (?seen s1) rs) \<le> length (filter (?seen s) rs)"
    by (intro length_filter_mono) blast
  have "?seen s r" if "v \<noteq> None"
  proof -
    from that v obtain t where "g = Ok (Some t)" by auto
    then have "view s (nccl_ready_key r) \<noteq> None" using get_str_law(3) [OF g] by auto
    then show ?thesis using whole rely_refl by blast
  qed
  with IH mono whole show ?case by (auto split: if_splits)
qed (simp add: rely_refl)

lemma await_ready_law:
  assumes sleep: "\<forall>d s. rely (view s) (view (sleep d s))"
  shows "0 < left \<Longrightarrow> await_ready R sleep rank ws left s = (Ok u, s') \<Longrightarrow> rely (view s) (view s') \<and>
    (\<forall>r < ws. \<exists>m. rely (view s) m \<and> rely m (view s') \<and> m (nccl_ready_key r) \<noteq> None)"
proof (induction left arbitrary: s)
  case (Suc left)
  obtain q s1 where q: "count_ready R [0..<ws] 0 s = (q, s1)" by (cases "count_ready R [0..<ws] 0 s")
  with Suc.prems obtain n where n: "q = Ok n" by (cases q) auto
  note law = count_ready_law [OF q [unfolded n]]
  show ?case
  proof (cases "n = ws")
    case True
    let ?seen = "\<lambda>r. \<exists>m. rely (view s) m \<and> rely m (view s1) \<and> m (nccl_ready_key r) \<noteq> None"
    from True Suc.prems q n have s': "s' = s1" by simp
    have "length (filter ?seen [0..<ws]) < length [0..<ws]" if "r < ws" "\<not> ?seen r" for r
      using that by (intro length_filter_less [of r]) auto
    moreover have "length [0..<ws] \<le> length (filter ?seen [0..<ws])" using law True by simp
    ultimately have "\<forall>r < ws. ?seen r" by (meson not_le)
    with law s' show ?thesis by blast
  next
    case False
    let ?s = "sleep 50 s1"
    from False Suc.prems q n have run: "0 < left" "await_ready R sleep rank ws left ?s = (Ok u, s')"
      by (auto split: if_splits)
    have "rely (view s) (view ?s)" using law sleep rely_trans by blast
    with Suc.IH [OF run] show ?thesis using rely_trans by blast
  qed
qed simp

end

end
