(* ===== verification/System.thy ===== *)
theory System
  imports Service Worker
begin

text \<open>
  The two programs together: what the gateway publishes is what the worker reads; what the
  worker stores is what the gateway decodes; so that a reply to \<open>SubmitTask\<close> is determined,
  bit by bit, by the vector, the slicing and the arithmetic.
\<close>

section \<open>From the gateway to the worker\<close>

context serde_codec
begin

lemma task_json_ok:
  assumes "utf8_string job" "utf8_string task" "i < 2 ^ 64"
  shows "json_ok (task_json job i task data)"
proof -
  have "json_ok (json_f64s data)" by (auto simp: json_f64s_def json_f64_def list_all_iff)
  moreover have "list_all utf8_string [''data'', ''job_id'', ''slice_id'', ''task'']"
    by (simp add: utf8_string_def)
  ultimately show ?thesis using assms by (simp add: task_json_def)
qed

lemma json_map_f64s:
  "json_map rt (json_f64s xs) = JArr (map (\<lambda>x. json_map rt (json_f64 x)) xs)"
  by (simp add: json_f64s_def)

text \<open>A message comes out of the worker's parser as it was sent, up to the reading of floats.\<close>

lemma parse_task_text:
  assumes "utf8_string job" "utf8_string task" "i < 2 ^ 64"
    and "list_all (\<lambda>x. finite_fp (f64_cls x)) data"
  shows "parse_task J (as_bytes (to_text J (task_json job i task data))) =
    Ok \<lparr>tm_job_id = job, tm_slice_id = i, tm_task = task, tm_data = map rt data\<rparr>"
proof -
  note ok = task_json_ok [OF assms(1-3), of data]
  have "de_vec_f64 (json_map rt (json_f64s data)) = Ok (map rt data)"
    using de_f64s_floats [of "map rt data"] assms(4)
    by (simp add: json_f64s_finite de_vec_f64_def comp_def)
  then show ?thesis
    by (simp add: parse_task_def roundtrip_raw [OF ok])
      (simp add: task_json_def de_field_def as_vec_f64_def)
qed

text \<open>A vector entry that is infinite or not a number becomes \<open>null\<close>, which the worker rejects.\<close>

lemma parse_task_nonfinite:
  assumes "utf8_string job" "utf8_string task" "i < 2 ^ 64"
    and "\<not> list_all (\<lambda>x. finite_fp (f64_cls x)) data"
  shows "\<exists>e. parse_task J (as_bytes (to_text J (task_json job i task data))) = Err e"
proof -
  note ok = task_json_ok [OF assms(1-3), of data]
  have "JNull \<in> set (map (\<lambda>x. json_map rt (json_f64 x)) data)"
    using assms(4) by (force simp: list_all_iff json_f64_def)
  then obtain e where "de_vec_f64 (json_map rt (json_f64s data)) = Err e"
    using de_f64s_null by (force simp: json_map_f64s de_vec_f64_def)
  then show ?thesis
    by (simp add: parse_task_def roundtrip_raw [OF ok])
      (simp add: task_json_def de_field_def as_vec_f64_def)
qed

text \<open>The text of a result parses exactly when every value is finite.\<close>

lemma parse_floats_text:
  "parse_floats J A (to_text J (json_f64s vals)) = Ok fs \<longleftrightarrow>
    list_all (\<lambda>x. finite_fp (f64_cls x)) vals \<and> fs = map (\<lambda>x. narrow A (rt x)) vals"
proof (cases "list_all (\<lambda>x. finite_fp (f64_cls x)) vals")
  case True
  have "de_vec_f64 (JArr (map (\<lambda>x. JFloat (rt x)) vals)) = Ok (map rt vals)"
    using de_f64s_floats [of "map rt vals"] by (simp add: de_vec_f64_def comp_def)
  with True show ?thesis by (auto simp: parse_floats_def vec_f64_text comp_def)
next
  case False
  then have "JNull \<in> set (map (\<lambda>x. json_map rt (json_f64 x)) vals)"
    by (force simp: list_all_iff json_f64_def)
  then obtain e where "de_f64s (map (\<lambda>x. json_map rt (json_f64 x)) vals) = Err e"
    using de_f64s_null by blast
  with False show ?thesis by (auto simp: parse_floats_def json_f64s_text de_vec_f64_def)
qed

end

section \<open>From the worker to the gateway\<close>

text \<open>What a worker stores for a slice, and what the gateway holds after reading it.\<close>

datatype payload = Partial "(f64, f32) partial_stats" | Normalized "f32 list"

fun payload_bytes :: "payload \<Rightarrow> bytes" where
  "payload_bytes (Partial p) = encode_partial p"
| "payload_bytes (Normalized probs) = encode_normalized probs"

fun payload_stats :: "(f64, f32) arith \<Rightarrow> payload \<Rightarrow> f64 slice_stats" where
  "payload_stats A (Partial p) = slice_of_partial A p"
| "payload_stats A (Normalized probs) =
     \<lparr>ss_exp_values = map (widen A) probs, ss_local_max = 0,
      ss_partial_sum = 0x3FF0000000000000, ss_is_normalized = True\<rparr>"

fun payload_length :: "payload \<Rightarrow> nat" where
  "payload_length (Partial p) = length (ps_exp_values p)"
| "payload_length (Normalized probs) = length probs"

lemma decode_payload:
  assumes "payload_length p < 2 ^ 32"
  shows "decode_slice LE J i (payload_bytes p) = Ok (Some (payload_stats (ieee exp64 exp32) p))"
  using assms decode_encode_partial [of _ J i exp64 exp32] decode_encode_normalized [of _ J i]
  by (cases p) (simp_all add: ieee_def)

text \<open>
  The invariant of a job's slices in the store: whatever is under the key of slice \<open>i\<close> is the
  payload \<open>stats i\<close>. It says nothing of keys that are not there.
\<close>

definition slices_of_job :: "string \<Rightarrow> nat \<Rightarrow> (nat \<Rightarrow> payload) \<Rightarrow> keyspace \<Rightarrow> bool" where
  "slices_of_job job n stats m \<longleftrightarrow>
     (\<forall>i < n. \<forall>b. m (slice_key job i) = Some b \<longrightarrow> b = payload_bytes (stats i))"

lemma slices_of_job_upd:
  assumes "slices_of_job job n stats m"
    and "\<And>i. i < n \<Longrightarrow> k = slice_key job i \<Longrightarrow> b = payload_bytes (stats i)"
  shows "slices_of_job job n stats (m(k \<mapsto> b))"
  using assms by (auto simp: slices_of_job_def)

text \<open>A worker that handles any message but a contradicting one of the same job keeps it.\<close>

definition compatible :: "serde \<Rightarrow> (f64, f32) arith \<Rightarrow> cuda option \<Rightarrow> string \<Rightarrow> nat \<Rightarrow>
    (nat \<Rightarrow> payload) \<Rightarrow> bytes \<Rightarrow> bool" where
  "compatible J A gpu job n stats raw \<longleftrightarrow>
     (\<forall>msg p. task_ready J A gpu raw msg p \<longrightarrow> tm_job_id msg = job \<longrightarrow> tm_slice_id msg < n \<longrightarrow>
        stats (tm_slice_id msg) = Partial p)"

context redis_server
begin

lemma handle_task_keeps_job:
  assumes "stable rely (slices_of_job job n stats)"
    and "compatible J A gpu job n stats raw" "slices_of_job job n stats (view s)"
    and "handle_task R J A gpu log_info raw s = (r, s')"
  shows "slices_of_job job n stats (view s')"
proof (rule handle_task_inv [where I = "slices_of_job job n stats", OF _ _ assms(3,4)])
  show "slices_of_job job n stats m'" if "slices_of_job job n stats m" "rely m m'" for m m'
    using stableD [OF assms(1)] that .
  show "slices_of_job job n stats (m(slice_key (tm_job_id msg) (tm_slice_id msg) \<mapsto> encode_partial p))"
    if "slices_of_job job n stats m" "task_ready J A gpu raw msg p" for m msg p
    using assms(2) that by (intro slices_of_job_upd) (auto simp: compatible_def)
qed

end

section \<open>SubmitTask\<close>

text \<open>What the aggregation is given once every slice of the job has been read.\<close>

definition collected :: "(f64, f32) arith \<Rightarrow> (nat \<Rightarrow> payload) \<Rightarrow> nat \<Rightarrow> f64 slice_stats list" where
  "collected A stats n = map (\<lambda>i. payload_stats A (stats i)) [0..<n]"

context gateway_runtime
begin

lemma aggregate_of_job:
  assumes keep: "stable rely (slices_of_job job n stats)"
    and small: "\<forall>i < n. payload_length (stats i) < 2 ^ 32"
    and "slices_of_job job n stats (view s)"
    and run: "aggregate R LE J (ieee exp64 exp32) T env gpu job n s = Some (Ok text, s')"
  shows "\<exists>vals. aggregate_values (ieee exp64 exp32) gpu (collected (ieee exp64 exp32) stats n) = Ok vals \<and>
    text = to_text J (json_f64s vals)"
proof -
  let ?A = "ieee exp64 exp32"
  let ?P = "\<lambda>i x. x = payload_stats ?A (stats i)"
  have "\<exists>xs vals. length xs = n \<and> (\<forall>i < n. ?P i (xs ! i)) \<and> aggregate_values ?A gpu xs = Ok vals \<and>
      text = to_text J (json_f64s vals)"
  proof (rule aggregate_law [where I = "slices_of_job job n stats", OF _ _ assms(3) run])
    show "slices_of_job job n stats m'" if "slices_of_job job n stats m" "rely m m'" for m m'
      using stableD [OF keep] that .
    show "x = payload_stats ?A (stats i)"
      if "slices_of_job job n stats m" "m (slice_key job i) = Some b" "i < n"
        "decode_slice LE J i b = Ok (Some x)" for m i b x
      using that decode_payload [of "stats i" J i exp64 exp32] small
      by (simp add: slices_of_job_def)
  qed
  then obtain xs vals where xs: "length xs = n" "\<forall>i < n. ?P i (xs ! i)"
      "aggregate_values ?A gpu xs = Ok vals" "text = to_text J (json_f64s vals)"
    by blast
  have "xs = collected ?A stats n"
    using xs(1,2) by (intro nth_equalityI) (simp_all add: collected_def)
  with xs(3,4) show ?thesis by auto
qed

end

text \<open>
  A reply to \<open>SubmitTask\<close>, whatever else happens to the store in the meantime, as long as it
  keeps the job's slices: the request was valid, every value of the aggregation is finite, and
  the answer is the aggregation rounded to single precision.
\<close>

lemma submit_task_replied:
  assumes rt: "gateway_runtime (g_redis G) view rely (g_runtime G)"
    and J: "serde_codec (g_serde G) fl"
    and G: "g_endian G = LE" "g_arith G = ieee exp64 exp32"
    and slices: "make_slices (g_env G) (g_nccl_dispatch G) (g_world_size G)
      (map f64_of_f32 (tr_vector req)) = Reply slices"
    and keep: "stable rely (slices_of_job (tr_job_id req) (length slices) stats)"
    and small: "\<forall>i < length slices. payload_length (stats i) < 2 ^ 32"
    and init: "slices_of_job (tr_job_id req) (length slices) stats (view s)"
    and run: "submit_task G req s = Some (Reply resp, s')"
  shows "\<exists>vals. aggregate_values (ieee exp64 exp32) (g_gpu G)
        (collected (ieee exp64 exp32) stats (length slices)) = Ok vals \<and>
      list_all (\<lambda>x. finite_fp (f64_cls x)) vals \<and>
      resp = \<lparr>ts_message = ''OK'', ts_result = map (\<lambda>x. f32_of_f64 (fl x)) vals\<rparr>"
proof -
  let ?A = "ieee exp64 exp32"
  let ?I = "slices_of_job (tr_job_id req) (length slices) stats"
  note gw = gateway_runtime.axioms(1) [OF rt]
  have A: "widen ?A = f64_of_f32" "narrow ?A = f32_of_f64" by (simp_all add: ieee_def)
  from run slices obtain s1 where
    meta: "set_job_metadata (g_redis G) (g_serde G) (g_env G) (tr_job_id req)
      \<lparr>jm_job_id = tr_job_id req, jm_task_type = tr_task req, jm_total_slices = length slices,
       jm_created_at = sys_secs (g_runtime G) s, jm_status = ''submitted''\<rparr> s = (Ok (), s1)"
    and disp: "dispatch_task G (tr_job_id req) (tr_task req) slices s1 = Some (Reply resp, s')"
    by (auto simp: submit_task_def Let_def G A split: if_splits sum.splits prod.splits)
  obtain m b where m: "wrote (Ok ()) (view s) (metadata_key (tr_job_id req)) b m" "rely m (view s1)"
    using redis_server.set_ex_wrote [OF gw meta [unfolded set_job_metadata_def Let_def]] by blast
  have "?I m" using m(1) init by (auto simp: wrote_ok intro!: slices_of_job_upd)
  then have I1: "?I (view s1)" using m(2) stableD [OF keep] by blast
  from disp obtain u s2 t fs where
    pub: "publish_all (bus_publish (g_runtime G))
      (task_messages (g_serde G) (g_nccl_dispatch G) (tr_job_id req) (tr_task req) slices) s1 = (Ok u, s2)"
    and agg: "aggregate (g_redis G) LE (g_serde G) ?A (g_runtime G) (g_env G) (g_gpu G)
      (tr_job_id req) (length slices) s2 = Some (Ok t, s')"
    and fs: "parse_floats (g_serde G) ?A t = Ok fs"
    and resp: "resp = \<lparr>ts_message = ''OK'', ts_result = fs\<rparr>"
    by (auto simp: dispatch_task_def G split: sum.splits prod.splits option.splits)
  have "?I (view s2)"
    using I1 stableD [OF keep] gateway_runtime.publish_all_rely [OF rt pub] by blast
  then obtain vals where vals: "aggregate_values ?A (g_gpu G) (collected ?A stats (length slices)) = Ok vals"
      "t = to_text (g_serde G) (json_f64s vals)"
    using gateway_runtime.aggregate_of_job [OF rt keep small _ agg] by blast
  with fs serde_codec.parse_floats_text [OF J] A resp show ?thesis by auto
qed

text \<open>The messages of a job are the ones its slices are computed from.\<close>

lemma message_compatible:
  assumes "serde_codec J fl" "utf8_string job" "k < 2 ^ 64"
    and "list_all (\<lambda>x. finite_fp (f64_cls x)) data" "compute_partial A gpu (map fl data) = Ok p" "stats k = Partial p"
  shows "compatible J A gpu job n stats (as_bytes (to_text J (task_json job k ''softmax'' data)))"
proof -
  have "utf8_string ''softmax''" by (simp add: utf8_string_def)
  note parse = serde_codec.parse_task_text [OF assms(1,2) this assms(3,4)]
  show ?thesis using assms(5,6) by (auto simp: compatible_def task_ready_def parse)
qed

lemma other_job_compatible:
  "parse_task J raw = Ok msg \<Longrightarrow> tm_job_id msg \<noteq> job \<Longrightarrow> compatible J A gpu job n stats raw"
  by (auto simp: compatible_def task_ready_def)

end
