(* ===== verification/Dispatch.thy ===== *)
theory Dispatch
  imports Publisher "HOL-Library.Multiset" "HOL-Library.Sublist"
begin

text \<open>
  Concurrent \<open>SubmitTask\<close> requests at the shared publisher (\<open>gateway-rs/src/service.rs\<close>,
  \<open>publisher/zmq.rs\<close>). Each request publishes its slices one after the other; nothing orders
  the publishes of different requests, so a step picks any request that has messages left. A
  failing publish ends the request.
\<close>

definition dispatch_step ::
  "(string \<times> string) list list \<times> publisher \<Rightarrow> nat \<Rightarrow> ((string \<times> string) list list \<times> publisher) option" where
  "dispatch_step = (\<lambda>(reqs, p) i.
     if i < length reqs then
       (case reqs ! i of
          [] \<Rightarrow> None
        | (subject, payload) # ms \<Rightarrow>
            (case publish p subject payload of
               (Ok _, p') \<Rightarrow> Some (reqs[i := ms], p')
             | (Err _, p') \<Rightarrow> Some (reqs[i := []], p')))
     else None)"

inductive dispatch_reach ::
  "(string \<times> string) list list \<times> publisher \<Rightarrow> (string \<times> string) list list \<times> publisher \<Rightarrow> bool" where
  here: "dispatch_reach S S"
| step: "dispatch_reach S S' \<Longrightarrow> dispatch_step S' i = Some S'' \<Longrightarrow> dispatch_reach S S''"

fun dispatch_run ::
  "nat list \<Rightarrow> (string \<times> string) list list \<times> publisher \<Rightarrow> ((string \<times> string) list list \<times> publisher) option" where
  "dispatch_run [] S = Some S"
| "dispatch_run (i # is) S = (case dispatch_step S i of None \<Rightarrow> None | Some S' \<Rightarrow> dispatch_run is S')"

lemma dispatch_run_reach: "dispatch_reach S0 S \<Longrightarrow> dispatch_run is S = Some S' \<Longrightarrow> dispatch_reach S0 S'"
  by (induction "is" arbitrary: S) (auto split: option.splits intro: dispatch_reach.step)

text \<open>The steps of one request, taken alone, are its publishing loop.\<close>

lemma dispatch_run_publish_all:
  assumes "publish_all publish ms p = (Ok u, p')" "i < length reqs"
  shows "dispatch_run (replicate (length ms) i) (reqs[i := ms], p) = Some (reqs[i := []], p')"
  using assms
proof (induction ms arbitrary: p)
  case (Cons m ms)
  obtain subj pl where m: "m = (subj, pl)" by (cases m)
  with Cons.prems(1) obtain v p1 where "publish p subj pl = (Ok v, p1)" "publish_all publish ms p1 = (Ok u, p')"
    by (auto split: prod.splits sum.splits)
  with Cons.IH [of p1] Cons.prems(2) show ?case by (simp add: dispatch_step_def m)
qed simp

section \<open>What reaches a queue\<close>

text \<open>A publisher none of whose socket threads has ended.\<close>

definition alive :: "publisher \<Rightarrow> bool" where
  "alive p = (case p of ZmqPublisher c \<Rightarrow> rx_alive c | ZmqMultiPublisher cs \<Rightarrow> list_all rx_alive cs)"

lemma publish_alive:
  assumes "alive p" "route p subj = Some i"
  shows "\<exists>p'. publish p subj pl = (Ok (), p') \<and> alive p'"
proof (cases p)
  case (ZmqPublisher c)
  with assms show ?thesis by (simp add: alive_def zmq_publish_def channel_send_def)
next
  case (ZmqMultiPublisher cs)
  with assms obtain "parse_uint (2 ^ 64) subj = Some i" "i < length cs"
    by (auto simp: multi_route_def split: option.splits if_splits)
  with ZmqMultiPublisher assms show ?thesis
    by (auto simp: alive_def zmq_multi_publish_def channel_send_def list_all_length nth_list_update)
qed

definition routable :: "publisher \<Rightarrow> (string \<times> string) list list \<Rightarrow> bool" where
  "routable p reqs \<longleftrightarrow> (\<forall>ms \<in> set reqs. \<forall>m \<in> set ms. route p (fst m) \<noteq> None)"

text \<open>
  The messages of the requests for queue \<open>i\<close>, as a multiset: what is already in the queue plus
  what is still to come does not change.
\<close>

definition due :: "publisher \<Rightarrow> nat \<Rightarrow> (string \<times> string) list list \<Rightarrow> bytes multiset" where
  "due p i reqs = (\<Sum>ms\<leftarrow>reqs. mset (routed route p i ms))"

lemma due_update:
  "k < length reqs \<Longrightarrow> reqs ! k = m # ms \<Longrightarrow>
    due p i reqs = due p i (reqs[k := ms]) + mset (routed route p i [m])"
proof (induction reqs arbitrary: k)
  case (Cons r reqs)
  then show ?case
    by (cases k) (auto simp: due_def routed_def)
qed simp

lemma dispatch_step_due:
  assumes "dispatch_step (reqs, p) k = Some (reqs', p')" "alive p" "routable p reqs"
  shows "alive p' \<and> routable p' reqs' \<and> route p' = route p \<and>
    mset (queue p' i) + due p' i reqs' = mset (queue p i) + due p i reqs"
proof -
  obtain subj pl ms where k: "k < length reqs" "reqs ! k = (subj, pl) # ms"
    using assms(1) by (auto simp: dispatch_step_def split: if_splits list.splits)
  then have "(subj, pl) \<in> set (reqs ! k)" "reqs ! k \<in> set reqs"
    using nth_mem [OF k(1)] by simp_all
  then have "route p subj \<noteq> None" using assms(3) unfolding routable_def by force
  then obtain j where j: "route p subj = Some j" by blast
  obtain p1 where pub: "publish p subj pl = (Ok (), p1)" "alive p1"
    using publish_alive [OF assms(2) j] by blast
  have step: "reqs' = reqs[k := ms]" "p' = p1"
    using assms(1) k pub by (simp_all add: dispatch_step_def)
  have route: "route p1 = route p" using bus.route_stable [OF pub(1)] .
  have q: "queue p1 = (queue p)(j := queue p j @ [as_bytes pl])"
    using bus.pub_ok [OF pub(1)] j by auto
  have "routable p1 reqs'"
    using assms(3) k unfolding routable_def route step
    by (metis in_set_conv_nth length_list_update list.set_intros(2) nth_list_update)
  moreover have "mset (queue p1 i) + due p1 i reqs' = mset (queue p i) + due p i reqs"
    using due_update [OF k, of p i] j by (simp add: q step due_def routed_def route)
  ultimately show ?thesis using pub(2) route step by simp
qed

lemma dispatch_reach_due:
  assumes "dispatch_reach S S'" "S = (reqs, p)" "alive p" "routable p reqs"
  shows "alive (snd S') \<and> routable (snd S') (fst S') \<and> route (snd S') = route p \<and>
    mset (queue (snd S') i) + due (snd S') i (fst S') = mset (queue p i) + due p i reqs"
  using assms
proof (induction rule: dispatch_reach.induct)
  case (here S)
  then show ?case by simp
next
  case (step S S' k S'')
  then show ?case
    using dispatch_step_due [of "fst S'" "snd S'" k "fst S''" "snd S''" i] by auto
qed

section \<open>Properties\<close>

text \<open>
  C25: however the publishes of concurrent requests interleave, no message is lost, duplicated or
  sent to the wrong queue: once every request has published its slices, a queue holds what it held
  before and exactly the messages that name it.
\<close>

theorem concurrent_publishes_all_arrive:
  assumes "dispatch_reach (reqs, p) (reqs', p')" "alive p" "routable p reqs"
    and "\<forall>ms \<in> set reqs'. ms = []"
  shows "mset (queue p' i) = mset (queue p i) + (\<Sum>ms\<leftarrow>reqs. mset (routed route p i ms))"
proof -
  have "due p' i reqs' = {#}"
    using assms(4) by (induction reqs') (simp_all add: due_def routed_def)
  with dispatch_reach_due [OF assms(1) refl assms(2,3), of i] show ?thesis
    by (simp add: due_def)
qed

lemma concurrent_publishes_all_arrive_witness:
  "mset (queue (ZmqPublisher \<lparr>sent = [as_bytes ''b'', as_bytes ''a''], rx_alive = True\<rparr>) 0) =
    mset (queue (ZmqPublisher new_channel) 0) +
    (\<Sum>ms\<leftarrow>[[(''task_queue'', ''a'')], [(''task_queue'', ''b'')]].
      mset (routed route (ZmqPublisher new_channel) 0 ms))"
proof (rule concurrent_publishes_all_arrive)
  let ?p = "ZmqPublisher new_channel"
  let ?q = "ZmqPublisher \<lparr>sent = [as_bytes ''b'', as_bytes ''a''], rx_alive = True\<rparr>"
  have "dispatch_run [1, 0] ([[(''task_queue'', ''a'')], [(''task_queue'', ''b'')]], ?p) = Some ([[], []], ?q)"
    by (simp add: dispatch_step_def zmq_publish_def channel_send_def new_channel_def)
  then show "dispatch_reach ([[(''task_queue'', ''a'')], [(''task_queue'', ''b'')]], ?p) ([[], []], ?q)"
    by (rule dispatch_run_reach [OF dispatch_reach.here])
qed (simp_all add: alive_def routable_def new_channel_def)

text \<open>
  C33: the order in which the ranks see the jobs is not guaranteed. Two requests that publish to
  two ranks at the same time can leave the first job in front on rank 0 and the second in front
  on rank 1, although every rank must compute the jobs in the same order.
\<close>

theorem nccl_order_race:
  "\<exists>p'. dispatch_reach ([[(dec 0, a0), (dec 1, a1)], [(dec 0, b0), (dec 1, b1)]],
        ZmqMultiPublisher [new_channel, new_channel]) ([[], []], p') \<and>
     queue p' 0 = [as_bytes a0, as_bytes b0] \<and> queue p' 1 = [as_bytes b1, as_bytes a1]"
proof -
  let ?S = "([[(dec 0, a0), (dec 1, a1)], [(dec 0, b0), (dec 1, b1)]], ZmqMultiPublisher [new_channel, new_channel])"
  let ?p = "ZmqMultiPublisher [\<lparr>sent = [as_bytes a0, as_bytes b0], rx_alive = True\<rparr>,
    \<lparr>sent = [as_bytes b1, as_bytes a1], rx_alive = True\<rparr>]"
  have "dispatch_run [0, 1, 1, 0] ?S = Some ([[], []], ?p)"
    by (simp add: dispatch_step_def zmq_multi_publish_def channel_send_def new_channel_def del: dec.simps)
  then have "dispatch_reach ?S ([[], []], ?p)"
    by (rule dispatch_run_reach [OF dispatch_reach.here])
  then show ?thesis by (intro exI [of _ ?p]) simp
qed

text \<open>
  C26: a request that fails to publish a slice has already sent a proper prefix of its messages,
  and nothing takes them back: their queues keep them.
\<close>

theorem failed_publish_leaves_prefix:
  assumes "publish_all publish ms p = (Err e, p')"
  shows "\<exists>k < length ms. \<forall>i. queue p' i = queue p i @ routed route p i (take k ms)"
  using assms by (rule bus.publish_all_err)

lemma failed_publish_leaves_prefix_witness:
  "\<exists>k < length [(dec 0, ''x''), (dec 1, ''y'')]. \<forall>i.
    queue (ZmqMultiPublisher [\<lparr>sent = [as_bytes ''x''], rx_alive = True\<rparr>]) i =
    queue (ZmqMultiPublisher [new_channel]) i @
      routed route (ZmqMultiPublisher [new_channel]) i (take k [(dec 0, ''x''), (dec 1, ''y'')])"
  by (rule failed_publish_leaves_prefix [where e = "''ZmqMultiPublisher: rank '' @ dec 1 @ '' out of range''"])
    (simp add: zmq_multi_publish_def channel_send_def new_channel_def del: dec.simps)

end
