(* ===== verification/Ref_Redis.thy ===== *)
theory Ref_Redis
  imports System
begin

text \<open>
  A keyspace that satisfies the contract \<open>redis_server\<close>: values with an optional expiry time,
  two clocks, the published messages, the notifier table, the publisher and a script of what other processes do between two commands
  of the caller. It shows that the contract can hold and gives concrete runs a world.
\<close>

datatype act = Put string bytes | Drop string | Tick nat

record world =
  w_data :: "(string \<times> (bytes \<times> nat option) option) list"
  w_secs :: nat
  w_mono :: nat
  w_pub :: "(string \<times> bytes) list"
  w_others :: "act list"
  w_notifier :: notifier
  w_bus :: publisher

definition live :: "world \<Rightarrow> keyspace" where
  "live w k =
     (case map_of (w_data w) k of
        Some (Some (v, None)) \<Rightarrow> Some v
      | Some (Some (v, Some t)) \<Rightarrow> if w_secs w < t then Some v else None
      | _ \<Rightarrow> None)"

definition put :: "string \<Rightarrow> bytes \<Rightarrow> nat option \<Rightarrow> world \<Rightarrow> world" where
  "put k v e w = w\<lparr>w_data := (k, Some (v, e)) # w_data w\<rparr>"

fun perform :: "act \<Rightarrow> world \<Rightarrow> world" where
  "perform (Put k v) w = put k v None w"
| "perform (Drop k) w = w\<lparr>w_data := (k, None) # w_data w\<rparr>"
| "perform (Tick n) w = w\<lparr>w_secs := w_secs w + n, w_mono := w_mono w + 10 ^ 9 * n\<rparr>"

text \<open>One scripted action of another process, if any is left.\<close>

definition others :: "world \<Rightarrow> world" where
  "others w = (case w_others w of [] \<Rightarrow> w | a # as \<Rightarrow> perform a (w\<lparr>w_others := as\<rparr>))"

definition matches :: "string \<Rightarrow> string \<Rightarrow> bool" where
  "matches pat k =
     (if pat \<noteq> '''' \<and> last pat = CHR ''*'' then take (length pat - 1) k = butlast pat else k = pat)"

definition ref_redis :: "(world \<Rightarrow> world) \<Rightarrow> world redis" where
  "ref_redis step =
     \<lparr>r_get = (\<lambda>k w. (Ok (live w k), step w)),
      r_set = (\<lambda>k v w. (Ok (), step (put k v None w))),
      r_set_ex = (\<lambda>k v ttl w.
        if ttl = 0 then (Err ''ERR invalid expire time in setex command'', step w)
        else (Ok (), step (put k v (Some (w_secs w + ttl)) w))),
      r_exists = (\<lambda>k w. (Ok (live w k \<noteq> None), step w)),
      r_ttl = (\<lambda>k w.
        ((case map_of (w_data w) k of
            Some (Some (v, None)) \<Rightarrow> Ok (- 1)
          | Some (Some (v, Some t)) \<Rightarrow> if w_secs w < t then Ok (int (t - w_secs w)) else Ok (- 2)
          | _ \<Rightarrow> Ok (- 2)), step w)),
      r_keys = (\<lambda>pat w.
        (Ok (filter (\<lambda>k. live w k \<noteq> None \<and> matches pat k) (remdups (map fst (w_data w)))), step w)),
      r_publish = (\<lambda>c v w. (Ok (), step (w\<lparr>w_pub := w_pub w @ [(c, v)]\<rparr>)))\<rparr>"

lemma live_put_plain: "live (put k v None w) = (live w)(k \<mapsto> v)"
  by (rule ext) (auto simp: live_def put_def split: option.splits)

lemma live_put_expiry: "0 < ttl \<Longrightarrow> live (put k v (Some (w_secs w + ttl)) w) = (live w)(k \<mapsto> v)"
  by (rule ext) (auto simp: live_def put_def split: option.splits)

lemma live_pub [simp]: "live (w\<lparr>w_pub := p\<rparr>) = live w"
  by (rule ext) (auto simp: live_def split: option.splits)

lemma ref_redis_server:
  assumes step: "\<And>w. rely (live w) (live (step w))"
    and "\<And>m. rely m m" and "\<And>m m' m''. rely m m' \<Longrightarrow> rely m' m'' \<Longrightarrow> rely m m''"
  shows "redis_server (ref_redis step) live rely"
proof
  fix k w v ttl s s' and r :: "unit result" and g :: "bytes option result" and e :: "bool result"
    and t :: "int result" and pat ks c m m' m''
  show "rely m m" and "rely m m' \<Longrightarrow> rely m' m'' \<Longrightarrow> rely m m''" using assms(2,3) by blast+
  show "r_get (ref_redis step) k s = (g, s') \<Longrightarrow>
      (\<forall>v. g = Ok v \<longrightarrow> v = live s k) \<and> rely (live s) (live s')"
    using step by (auto simp: ref_redis_def)
  show "r_set (ref_redis step) k w s = (r, s') \<Longrightarrow>
      \<exists>m. wrote r (live s) k w m \<and> rely m (live s')"
    using step [of "put k w None s"] by (auto simp: ref_redis_def wrote_def live_put_plain)
  show "r_set_ex (ref_redis step) k w ttl s = (r, s') \<Longrightarrow>
      (ttl = 0 \<longrightarrow> r \<noteq> Ok ()) \<and> (\<exists>m. wrote r (live s) k w m \<and> rely m (live s'))"
    using step [of "put k w (Some (w_secs s + ttl)) s"] step [of s]
    by (auto simp: ref_redis_def wrote_def live_put_expiry split: if_splits)
  show "r_exists (ref_redis step) k s = (e, s') \<Longrightarrow>
      (\<forall>b. e = Ok b \<longrightarrow> b = (live s k \<noteq> None)) \<and> rely (live s) (live s')"
    using step by (auto simp: ref_redis_def)
  show "r_ttl (ref_redis step) k s = (t, s') \<Longrightarrow>
      (\<forall>i. t = Ok i \<longrightarrow> (i = - 2 \<longleftrightarrow> live s k = None)) \<and> rely (live s) (live s')"
    using step by (auto simp: ref_redis_def live_def split: option.splits prod.splits if_splits)
  show "r_keys (ref_redis step) pat s = (ks, s') \<Longrightarrow>
      (\<forall>l. ks = Ok l \<longrightarrow> distinct l \<and> set l \<subseteq> dom (live s)) \<and> rely (live s) (live s')"
    using step by (auto simp: ref_redis_def)
  show "r_publish (ref_redis step) c w s = (r, s') \<Longrightarrow> rely (live s) (live s')"
    using step [of "s\<lparr>w_pub := w_pub s @ [(c, w)]\<rparr>"] by (auto simp: ref_redis_def)
qed

text \<open>The runtime of such a world: a timed wait takes its full time.\<close>

definition ref_runtime :: "(world \<Rightarrow> world) \<Rightarrow> world runtime" where
  "ref_runtime step =
     \<lparr>mono_now = w_mono, sys_secs = w_secs,
      wait_changed = (\<lambda>_ d w. step (w\<lparr>w_mono := w_mono w + d\<rparr>)),
      the_notifier = w_notifier, with_notifier = (\<lambda>N w. w\<lparr>w_notifier := N\<rparr>),
      the_publisher = w_bus, with_publisher = (\<lambda>p w. w\<lparr>w_bus := p\<rparr>)\<rparr>"

lemma live_mono [simp]: "live (w\<lparr>w_mono := t\<rparr>) = live w"
  by (rule ext) (auto simp: live_def split: option.splits)

lemma live_notifier [simp]: "live (w\<lparr>w_notifier := N\<rparr>) = live w"
  by (rule ext) (auto simp: live_def split: option.splits)

lemma live_bus [simp]: "live (w\<lparr>w_bus := p\<rparr>) = live w"
  by (rule ext) (auto simp: live_def split: option.splits)

lemma mono_others: "w_mono w \<le> w_mono (others w)"
proof (cases "w_others w")
  case (Cons a as)
  then show ?thesis by (cases a) (simp_all add: others_def put_def)
qed (simp add: others_def)

text \<open>Alone on the server, and with other processes that may do anything.\<close>

interpretation quiet: clocked_runtime "ref_redis (\<lambda>w. w)" live "(=)" "ref_runtime (\<lambda>w. w)"
  by (intro clocked_runtime.intro gateway_runtime.intro ref_redis_server
      gateway_runtime_axioms.intro clocked_runtime_axioms.intro)
    (auto simp: ref_redis_def ref_runtime_def)

interpretation shared: clocked_runtime "ref_redis others" live "\<lambda>_ _. True" "ref_runtime others"
  by (intro clocked_runtime.intro gateway_runtime.intro ref_redis_server
      gateway_runtime_axioms.intro clocked_runtime_axioms.intro)
    (auto simp: ref_redis_def ref_runtime_def mono_others intro: less_le_trans [OF _ mono_others])

interpretation ref_bus: exclusive_bus "ref_runtime step" for step
  by unfold_locales (simp_all add: ref_runtime_def)

end
