(* ===== verification/Ref_Serde.thy ===== *)
theory Ref_Serde
  imports Json
begin

text \<open>
  A text format for JSON values that satisfies the contract \<open>serde_codec\<close> with \<open>rt\<close> the
  identity: numbers in decimal, each closed by a semicolon, constructors and lengths first. It
  is not serde's grammar; it shows that the contract can hold and gives concrete runs something
  to compute with.
\<close>

section \<open>Values as lists of numbers\<close>

definition str_codes :: "string \<Rightarrow> nat list" where
  "str_codes s = length s # map of_char s"

fun json_codes :: "json \<Rightarrow> nat list" where
  "json_codes JNull = [0]"
| "json_codes (JBool b) = [1, if b then 1 else 0]"
| "json_codes (JPos n) = [2, n]"
| "json_codes (JNeg i) = [3, nat (- i)]"
| "json_codes (JFloat x) = [4, unat x]"
| "json_codes (JStr s) = 5 # str_codes s"
| "json_codes (JArr vs) = 6 # length vs # concat (map json_codes vs)"
| "json_codes (JObj kvs) =
     7 # length kvs # concat (map (\<lambda>kv. str_codes (fst kv) @ json_codes (snd kv)) kvs)"

fun str_of_codes :: "nat list \<Rightarrow> string \<times> nat list" where
  "str_of_codes [] = ('''', [])"
| "str_of_codes (n # cs) = (map char_of (take n cs), drop n cs)"

fun json_of_codes :: "nat \<Rightarrow> nat list \<Rightarrow> json \<times> nat list"
  and items_of_codes :: "nat \<Rightarrow> nat \<Rightarrow> nat list \<Rightarrow> json list \<times> nat list"
  and fields_of_codes :: "nat \<Rightarrow> nat \<Rightarrow> nat list \<Rightarrow> (string \<times> json) list \<times> nat list" where
  "json_of_codes 0 cs = (JNull, cs)"
| "json_of_codes (Suc f) cs =
     (case cs of
        t # c # r \<Rightarrow>
          (if t = 0 then (JNull, c # r)
           else if t = 1 then (JBool (c = 1), r)
           else if t = 2 then (JPos c, r)
           else if t = 3 then (JNeg (- int c), r)
           else if t = 4 then (JFloat (of_nat c), r)
           else if t = 5 then (case str_of_codes (c # r) of (s, r') \<Rightarrow> (JStr s, r'))
           else if t = 6 then (case items_of_codes f c r of (vs, r') \<Rightarrow> (JArr vs, r'))
           else (case fields_of_codes f c r of (kvs, r') \<Rightarrow> (JObj kvs, r')))
      | t # [] \<Rightarrow> (JNull, [])
      | [] \<Rightarrow> (JNull, []))"
| "items_of_codes 0 n cs = ([], cs)"
| "items_of_codes (Suc f) n cs =
     (case n of 0 \<Rightarrow> ([], cs)
      | Suc m \<Rightarrow> (case json_of_codes f cs of (v, r) \<Rightarrow>
          (case items_of_codes f m r of (vs, r') \<Rightarrow> (v # vs, r'))))"
| "fields_of_codes 0 n cs = ([], cs)"
| "fields_of_codes (Suc f) n cs =
     (case n of 0 \<Rightarrow> ([], cs)
      | Suc m \<Rightarrow> (case str_of_codes cs of (k, r) \<Rightarrow>
          (case json_of_codes f r of (v, r') \<Rightarrow>
             (case fields_of_codes f m r' of (kvs, r'') \<Rightarrow> ((k, v) # kvs, r'')))))"

fun jsize :: "json \<Rightarrow> nat" where
  "jsize (JArr vs) = 2 + sum_list (map (\<lambda>v. 1 + jsize v) vs)"
| "jsize (JObj kvs) = 2 + sum_list (map (\<lambda>kv. 1 + jsize (snd kv)) kvs)"
| "jsize _ = 1"

lemma str_of_codes_str_codes [simp]: "str_of_codes (str_codes s @ r) = (s, r)"
  by (simp add: str_codes_def comp_def)

lemma items_step:
  assumes "\<And>v f r. v \<in> set vs \<Longrightarrow> jsize v \<le> f \<Longrightarrow> json_of_codes f (json_codes v @ r) = (v, r)"
    and "1 + sum_list (map (\<lambda>v. 1 + jsize v) vs) \<le> f"
  shows "items_of_codes f (length vs) (concat (map json_codes vs) @ r) = (vs, r)"
  using assms
proof (induction vs arbitrary: f)
  case Nil
  then show ?case by (cases f) simp_all
next
  case (Cons v vs)
  from Cons.prems(2) obtain f' where f: "f = Suc f'" by (cases f) simp_all
  have "items_of_codes f' (length vs) (concat (map json_codes vs) @ r) = (vs, r)"
    using Cons.prems f by (intro Cons.IH) simp_all
  moreover have "json_of_codes f' (json_codes v @ concat (map json_codes vs) @ r) =
      (v, concat (map json_codes vs) @ r)"
    using Cons.prems f by (intro Cons.prems(1)) simp_all
  ultimately show ?case by (simp add: f)
qed

lemma fields_step:
  assumes "\<And>kv f r. kv \<in> set kvs \<Longrightarrow> jsize (snd kv) \<le> f \<Longrightarrow>
      json_of_codes f (json_codes (snd kv) @ r) = (snd kv, r)"
    and "1 + sum_list (map (\<lambda>kv. 1 + jsize (snd kv)) kvs) \<le> f"
  shows "fields_of_codes f (length kvs)
      (concat (map (\<lambda>kv. str_codes (fst kv) @ json_codes (snd kv)) kvs) @ r) = (kvs, r)"
  using assms
proof (induction kvs arbitrary: f)
  case Nil
  then show ?case by (cases f) simp_all
next
  case (Cons kv kvs)
  let ?c = "concat (map (\<lambda>kv. str_codes (fst kv) @ json_codes (snd kv)) kvs)"
  from Cons.prems(2) obtain f' where f: "f = Suc f'" by (cases f) simp_all
  have "fields_of_codes f' (length kvs) (?c @ r) = (kvs, r)"
    using Cons.prems f by (intro Cons.IH) simp_all
  moreover have "json_of_codes f' (json_codes (snd kv) @ ?c @ r) = (snd kv, ?c @ r)"
    using Cons.prems f by (intro Cons.prems(1)) simp_all
  ultimately show ?case by (simp add: f)
qed

lemma json_of_codes_json_codes:
  "json_ok v \<Longrightarrow> jsize v \<le> f \<Longrightarrow> json_of_codes f (json_codes v @ r) = (v, r)"
proof (induction v arbitrary: f r rule: json_codes.induct)
  case (7 vs)
  then obtain f' where f: "f = Suc f'" by (cases f) simp_all
  have "items_of_codes f' (length vs) (concat (map json_codes vs) @ r) = (vs, r)"
    using 7 f by (intro items_step) (auto simp: list_all_iff)
  then show ?case by (simp add: f)
next
  case (8 kvs)
  then obtain f' where f: "f = Suc f'" by (cases f) simp_all
  have "fields_of_codes f' (length kvs)
      (concat (map (\<lambda>kv. str_codes (fst kv) @ json_codes (snd kv)) kvs) @ r) = (kvs, r)"
    using 8 f by (intro fields_step) (auto simp: list_all_iff)
  then show ?case by (simp add: f)
next
  case 1 then show ?case by (cases f; cases r) simp_all
next
  case (6 s)
  then obtain f' where f: "f = Suc f'" by (cases f) simp_all
  show ?case using str_of_codes_str_codes [of s r] by (simp add: f str_codes_def)
qed (case_tac f; simp)+

section \<open>Numbers as text\<close>

definition codes_text :: "nat list \<Rightarrow> string" where
  "codes_text cs = concat (map (\<lambda>c. dec c @ '';'') cs)"

fun text_codes :: "string \<Rightarrow> string \<Rightarrow> nat list" where
  "text_codes acc [] = []"
| "text_codes acc (c # cs) =
     (if c = CHR '';'' then digits_val (rev acc) # text_codes [] cs else text_codes (c # acc) cs)"

lemma text_codes_digits:
  "list_all is_digit ds \<Longrightarrow> text_codes acc (ds @ CHR '';'' # s) = digits_val (rev acc @ ds) # text_codes [] s"
proof (induction ds arbitrary: acc)
  case (Cons d ds)
  then have "d \<noteq> CHR '';''" by (auto simp: is_digit_def)
  with Cons show ?case by simp
qed simp

lemma text_codes_codes_text: "text_codes [] (codes_text cs) = cs"
  by (induction cs) (simp_all add: codes_text_def text_codes_digits dec_digits)

lemma codes_text_ascii: "list_all (\<lambda>b. b < 0x80) (map of_char (codes_text cs) :: nat list)"
  using dec_digits by (fastforce simp: codes_text_def list_all_iff is_digit_def)

definition parse_codes :: "string \<Rightarrow> json result" where
  "parse_codes t = (case text_codes [] t of [] \<Rightarrow> Err ''empty'' | f # cs \<Rightarrow> Ok (fst (json_of_codes f cs)))"

definition ref_serde :: serde where
  "ref_serde =
     \<lparr>to_text = (\<lambda>j. codes_text (jsize j # json_codes j)), from_text = parse_codes,
      from_raw = (\<lambda>b. parse_codes (of_bytes b))\<rparr>"

lemma json_map_id: "json_map (\<lambda>x. x) j = j"
  by (induction "\<lambda>x :: f64. x" j rule: json_map.induct) (simp_all cong: map_cong)

interpretation ref_serde: serde_codec ref_serde "\<lambda>x. x"
proof unfold_locales
  fix j assume "json_ok j"
  then show "from_text ref_serde (to_text ref_serde j) = Ok (json_map (\<lambda>x. x) j)"
    using json_of_codes_json_codes [of j "jsize j" "[]"]
    by (simp add: ref_serde_def parse_codes_def text_codes_codes_text json_map_id)
  show "utf8_string (to_text ref_serde j)"
    by (simp add: ref_serde_def utf8_string_def utf8_valid_ascii [OF codes_text_ascii])
next
  fix t
  show "from_raw ref_serde (as_bytes t) = from_text ref_serde t" by (simp add: ref_serde_def)
qed

end
