(* ===== verification/Quiet.thy ===== *)
theory Quiet
  imports System Dispatch Ref_Redis Ref_Serde
begin

text \<open>
  Runs on a server that nobody else writes to: what the operations return when everything they
  need is there. They show that the code succeeds when it should, and give the other theorems
  runs to apply to.
\<close>

abbreviation quiet_redis :: "world redis" where "quiet_redis \<equiv> ref_redis (\<lambda>w. w)"

abbreviation quiet_runtime :: "world runtime" where "quiet_runtime \<equiv> ref_runtime (\<lambda>w. w)"

section \<open>Collecting\<close>

lemma quiet_get: "r_get quiet_redis k w = (Ok (live w k), w)"
  by (simp add: ref_redis_def)

lemma quiet_read_slice_state: "read_slice quiet_redis E J job i w = (r, w') \<Longrightarrow> w' = w"
  by (auto simp: read_slice_def get_bytes_def quiet_get split: option.splits if_splits)

lemma quiet_read_pass_state: "read_pass quiet_redis E J job is c w = (c', w') \<Longrightarrow> w' = w"
proof (induction "is" arbitrary: c)
  case (Cons i "is")
  obtain r w1 where r: "read_slice quiet_redis E J job i w = (r, w1)"
    by (cases "read_slice quiet_redis E J job i w")
  with quiet_read_slice_state [OF this] Cons show ?case
    by (auto split: if_splits sum.splits option.splits)
qed simp

definition ready_as :: "endian \<Rightarrow> serde \<Rightarrow> string \<Rightarrow> f64 slice_stats list \<Rightarrow> keyspace \<Rightarrow> bool" where
  "ready_as E J job xs m \<longleftrightarrow> (\<forall>i < length xs. \<exists>b. m (slice_key job i) = Some b \<and> b \<noteq> [] \<and>
     decode_slice E J i b = Ok (Some (xs ! i)))"

lemma quiet_read_pass:
  assumes "ready_as E J job xs (live w)"
  shows "\<exists>c. read_pass quiet_redis E J job [0..<length xs] (collector_init (length xs)) w = (c, w) \<and>
    col_remaining c = 0 \<and> col_stats c = xs"
proof -
  let ?n = "length xs"
  obtain c w' where run: "read_pass quiet_redis E J job [0..<?n] (collector_init ?n) w = (c, w')"
    by (cases "read_pass quiet_redis E J job [0..<?n] (collector_init ?n) w")
  have w': "w' = w" by (rule quiet_read_pass_state [OF run])
  have inv: "ready_as E J job xs (live w') \<and> collector_inv ?n (\<lambda>i x. x = xs ! i) c"
  proof (rule quiet.read_pass_inv [where I = "ready_as E J job xs", OF _ _ assms collector_inv_init _ run])
    show "x = xs ! i" if "ready_as E J job xs m" "m (slice_key job i) = Some b" "i < ?n"
      "decode_slice E J i b = Ok (Some x)" for m i b x
      using that by (auto simp: ready_as_def)
  qed auto
  have "slices_ready E J job ?n (live w)"
    using assms by (auto simp: ready_as_def slices_ready_def)
  then have "\<forall>i < ?n. i \<in> set [0..<?n] \<or> col_have (collector_init ?n) ! i \<longrightarrow> col_have c ! i"
    using quiet.read_pass_complete [where W = "\<lambda>_. True", OF _ _ _ _ _ _ run]
    by (simp add: quiet_get collector_init_def)
  then have "{i. i < ?n \<and> \<not> col_have c ! i} = {}" by auto
  with inv have rem: "col_remaining c = 0" by (simp add: collector_inv_def)
  have "col_stats c = xs"
    using inv rem collector_done [of ?n "\<lambda>i x. x = xs ! i" c] by (intro nth_equalityI) auto
  with run w' rem show ?thesis by blast
qed

definition after_wait :: "string \<Rightarrow> world \<Rightarrow> world" where
  "after_wait job w = w\<lparr>w_notifier := unregister_job job (snd (register_job job (w_notifier w)))\<rparr>"

lemma live_after_wait [simp]: "live (after_wait job w) = live w"
  by (simp add: after_wait_def)

lemma quiet_wait:
  assumes "ready_as E J job xs (live w)"
  shows "wait_for_all_slices quiet_redis E J quiet_runtime env job (length xs) w =
    Some (Ok xs, after_wait job w)"
proof -
  obtain rx N where reg: "register_job job (w_notifier w) = (rx, N)"
    by (cases "register_job job (w_notifier w)")
  let ?w = "w\<lparr>w_notifier := N\<rparr>"
  have "ready_as E J job xs (live ?w)" using assms by simp
  from quiet_read_pass [OF this] obtain c where
    c: "read_pass quiet_redis E J job [0..<length xs] (collector_init (length xs)) ?w = (c, ?w)"
      "col_remaining c = 0" "col_stats c = xs" by blast
  have loop: "wait_loop quiet_redis E J quiet_runtime job (length xs) rx d
      (collector_init (length xs)) ?w = Some (Ok (), c, ?w)" for d
    by (subst wait_loop.simps) (simp add: c)
  show ?thesis
    using reg by (simp add: wait_for_all_slices_def Let_def ref_runtime_def [symmetric] after_wait_def)
      (simp add: ref_runtime_def loop [unfolded ref_runtime_def] c(3))
qed

section \<open>Storing\<close>

definition ttls_positive :: "environment \<Rightarrow> bool" where
  "ttls_positive env \<longleftrightarrow> 0 < result_ttl env \<and> 0 < metadata_ttl env \<and> 0 < progress_ttl env"

lemma quiet_set_ex:
  assumes "0 < ttl"
  shows "\<exists>w'. set_ex quiet_redis k v ttl w = (Ok (), w') \<and> live w' = (live w)(k \<mapsto> as_bytes v) \<and>
    w_bus w' = w_bus w"
  using live_put_expiry [OF assms, of k "as_bytes v" w] assms
  by (simp add: set_ex_def ref_redis_def) (simp add: put_def)

lemma quiet_store_final_result:
  assumes "ttls_positive env"
  shows "\<exists>w' b. store_final_result quiet_redis J env now job t w = (Ok (), w') \<and>
    live w' = (live w)(result_key job \<mapsto> as_bytes t, progress_key job \<mapsto> b)"
proof -
  have ttl: "0 < result_ttl env" "0 < progress_ttl env" using assms by (simp_all add: ttls_positive_def)
  obtain w1 where 1: "set_ex quiet_redis (result_key job) t (result_ttl env) w = (Ok (), w1)"
      "live w1 = (live w)(result_key job \<mapsto> as_bytes t)"
    using quiet_set_ex [OF ttl(1)] by blast
  obtain v where v: "update_progress quiet_redis J env now job ''completed'' w1 =
      set_ex quiet_redis (progress_key job) v (progress_ttl env) w1"
    by (simp add: update_progress_def Let_def)
  obtain w2 where "set_ex quiet_redis (progress_key job) v (progress_ttl env) w1 = (Ok (), w2)"
      "live w2 = (live w1)(progress_key job \<mapsto> as_bytes v)"
    using quiet_set_ex [OF ttl(2)] by blast
  with 1 v show ?thesis by (simp add: store_final_result_def) blast
qed

lemma quiet_aggregate:
  assumes "ready_as E J job xs (live w)" "ttls_positive env" "aggregate_values A gpu xs = Ok vals"
  shows "\<exists>w'. aggregate quiet_redis E J A quiet_runtime env gpu job (length xs) w =
      Some (Ok (to_text J (json_f64s vals)), w') \<and>
    live w' (result_key job) = Some (as_bytes (to_text J (json_f64s vals))) \<and>
    live w' (metadata_key job) = live w (metadata_key job)"
proof -
  let ?t = "to_text J (json_f64s vals)"
  obtain w' b where "store_final_result quiet_redis J env (sys_secs quiet_runtime) job ?t (after_wait job w) = (Ok (), w')"
      "live w' = (live w)(result_key job \<mapsto> as_bytes ?t, progress_key job \<mapsto> b)"
    using quiet_store_final_result [OF assms(2), of J "sys_secs quiet_runtime" job ?t "after_wait job w"] by auto
  then show ?thesis
    using quiet_wait [OF assms(1), of env] assms(3) by (simp add: aggregate_def)
qed

section \<open>Publishing\<close>

lemma quiet_bus:
  "bus_publish quiet_runtime w subj pl = (case publish (w_bus w) subj pl of (r, p) \<Rightarrow> (r, w\<lparr>w_bus := p\<rparr>))"
  by (simp add: bus_publish_def ref_runtime_def)

lemma quiet_publish_all:
  assumes "alive (w_bus w)" "\<forall>m \<in> set ms. route (w_bus w) (fst m) \<noteq> None"
  shows "\<exists>w'. publish_all (bus_publish quiet_runtime) ms w = (Ok (), w') \<and> live w' = live w"
  using assms
proof (induction ms arbitrary: w)
  case (Cons m ms)
  obtain subj pl where m: "m = (subj, pl)" by (cases m)
  with Cons.prems(2) obtain i where i: "route (w_bus w) subj = Some i" by auto
  obtain p where p: "publish (w_bus w) subj pl = (Ok (), p)" "alive p"
    using publish_alive [OF Cons.prems(1) i] by blast
  let ?w = "w\<lparr>w_bus := p\<rparr>"
  have "\<exists>w'. publish_all (bus_publish quiet_runtime) ms ?w = (Ok (), w') \<and> live w' = live ?w"
    using Cons.prems(2) p(2) bus.route_stable [OF p(1)] by (intro Cons.IH) simp_all
  moreover have "bus_publish quiet_runtime w subj pl = (Ok (), ?w)" by (simp add: quiet_bus p(1))
  ultimately show ?case by (simp add: m)
qed simp

section \<open>A request that is served\<close>

definition routes_slices :: "bool \<Rightarrow> publisher \<Rightarrow> nat \<Rightarrow> bool" where
  "routes_slices nccl p n \<longleftrightarrow> (\<forall>i < n. route p (slice_subject nccl i) \<noteq> None)"

lemma quiet_submit_task:
  assumes G: "g_redis G = quiet_redis" "g_runtime G = quiet_runtime" "ttls_positive (g_env G)"
    and J: "serde_codec (g_serde G) fl"
    and "tr_task req = ''softmax''" "tr_vector req \<noteq> []"
    and slices: "make_slices (g_env G) (g_nccl_dispatch G) (g_world_size G)
      (map (widen (g_arith G)) (tr_vector req)) = Reply slices"
    and bus: "alive (w_bus w)" "routes_slices (g_nccl_dispatch G) (w_bus w) (length slices)"
    and ready: "ready_as (g_endian G) (g_serde G) (tr_job_id req) xs (live w)" "length xs = length slices"
    and vals: "aggregate_values (g_arith G) (g_gpu G) xs = Ok vals"
      "list_all (\<lambda>x. finite_fp (f64_cls x)) vals"
  shows "\<exists>w'. submit_task G req w =
    Some (Reply \<lparr>ts_message = ''OK'', ts_result = map (\<lambda>x. narrow (g_arith G) (fl x)) vals\<rparr>, w') \<and>
    live w' (result_key (tr_job_id req)) = Some (as_bytes (to_text (g_serde G) (json_f64s vals))) \<and>
    live w' (metadata_key (tr_job_id req)) = Some (as_bytes (to_text (g_serde G) (metadata_to_json
      \<lparr>jm_job_id = tr_job_id req, jm_task_type = ''softmax'', jm_total_slices = length slices,
       jm_created_at = w_secs w, jm_status = ''submitted''\<rparr>)))"
proof -
  let ?job = "tr_job_id req"
  have ttl: "0 < metadata_ttl (g_env G)" using G(3) by (simp add: ttls_positive_def)
  define meta where "meta = to_text (g_serde G) (metadata_to_json
    \<lparr>jm_job_id = ?job, jm_task_type = ''softmax'', jm_total_slices = length slices,
     jm_created_at = sys_secs quiet_runtime w, jm_status = ''submitted''\<rparr>)"
  obtain w1 where w1: "set_ex quiet_redis (metadata_key ?job) meta (metadata_ttl (g_env G)) w = (Ok (), w1)"
      "live w1 = (live w)(metadata_key ?job \<mapsto> as_bytes meta)" "w_bus w1 = w_bus w"
    using quiet_set_ex [OF ttl] by blast
  let ?ms = "task_messages (g_serde G) (g_nccl_dispatch G) ?job ''softmax'' slices"
  have "\<forall>m \<in> set ?ms. route (w_bus w1) (fst m) \<noteq> None"
    using bus(2) w1(3) by (auto simp: task_messages_def routes_slices_def dest!: set_zip_leftD)
  then obtain w2 where w2: "publish_all (bus_publish quiet_runtime) ?ms w1 = (Ok (), w2)" "live w2 = live w1"
    using quiet_publish_all [of w1 ?ms] bus(1) w1(3) by auto
  have "ready_as (g_endian G) (g_serde G) ?job xs (live w2)"
    using ready(1) by (simp add: ready_as_def w1(2) w2(2))
  from quiet_aggregate [OF this G(3) vals(1)] obtain w3 where
    w3: "aggregate quiet_redis (g_endian G) (g_serde G) (g_arith G) quiet_runtime (g_env G) (g_gpu G) ?job
      (length slices) w2 = Some (Ok (to_text (g_serde G) (json_f64s vals)), w3)"
      "live w3 (result_key ?job) = Some (as_bytes (to_text (g_serde G) (json_f64s vals)))"
      "live w3 (metadata_key ?job) = Some (as_bytes meta)"
    using ready(2) by (auto simp: w1(2) w2(2))
  have parse: "parse_floats (g_serde G) (g_arith G) (to_text (g_serde G) (json_f64s vals)) =
      Ok (map (\<lambda>x. narrow (g_arith G) (fl x)) vals)"
    using serde_codec.parse_floats_text [OF J] vals(2) by blast
  have secs: "sys_secs quiet_runtime w = w_secs w" by (simp add: ref_runtime_def)
  show ?thesis
    using assms(5,6) w3(2,3)
    by (simp add: meta_def [unfolded secs] secs submit_task_def Let_def slices set_job_metadata_def G(1,2)
        w1(1) [unfolded meta_def secs] dispatch_task_def w2(1) w3(1) parse)
qed

end
