(* ===== verification/Demo.thy ===== *)
theory Demo
  imports Quiet
begin

text \<open>
  One concrete deployment, on a store of its own, that the examples of the theorems run on.
\<close>

text \<open>A concrete gateway, store and request: NCCL mode with one rank, whose slice is there.\<close>

definition demo_prob :: f32 where
  "demo_prob = 0x3F800000"

definition demo_slice :: payload where
  "demo_slice = Normalized [demo_prob]"

definition demo_request :: task_request where
  "demo_request = \<lparr>tr_job_id = ''j'', tr_task = ''softmax'', tr_vector = [demo_prob]\<rparr>"

definition demo_gateway :: "world gateway" where
  "demo_gateway =
     \<lparr>g_redis = quiet_redis, g_serde = ref_serde, g_endian = LE, g_arith = ieee id id,
      g_runtime = quiet_runtime, g_env = (\<lambda>_. None), g_gpu = None, g_nccl_dispatch = True,
      g_world_size = 1\<rparr>"

definition demo_world :: world where
  "demo_world =
     \<lparr>w_data = [(slice_key ''j'' 0, Some (payload_bytes demo_slice, None))], w_secs = 0, w_mono = 0,
      w_pub = [], w_others = [], w_notifier = notifier_new,
      w_bus = ZmqMultiPublisher [new_channel]\<rparr>"

lemma demo_prob_finite: "finite_fp (f32_cls demo_prob)"
  by (simp add: demo_prob_def f32_cls_def decode_def b32_def inf_mag_def sign_bit_def)

lemma demo_slices: "make_slices (g_env demo_gateway) (g_nccl_dispatch demo_gateway) (g_world_size demo_gateway)
    (map f64_of_f32 (tr_vector demo_request)) = Reply [[f64_of_f32 demo_prob]]"
  by (simp add: demo_gateway_def demo_request_def make_slices_def even_chunks_def chunk_take_def)

lemma demo_live: "live demo_world = [slice_key ''j'' 0 \<mapsto> payload_bytes demo_slice]"
  by (rule ext) (simp add: live_def demo_world_def)

lemma demo_ready: "ready_as LE ref_serde ''j'' [payload_stats (ieee id id) demo_slice] (live demo_world)"
  using decode_payload [of demo_slice ref_serde 0 id id]
  by (simp add: ready_as_def demo_live demo_slice_def encode_normalized_def Let_def)

lemma demo_values: "aggregate_values (ieee id id) None [payload_stats (ieee id id) demo_slice] =
    Ok [f64_of_f32 demo_prob]"
  by (simp add: aggregate_values_def demo_slice_def) (simp add: ieee_def)

lemma demo_ttls: "ttls_positive (\<lambda>_. None)"
  by (simp add: ttls_positive_def result_ttl_def metadata_ttl_def progress_ttl_def ttl_hours_def env_uint_def)

lemma ieee_conv: "widen (ieee exp64 exp32) = f64_of_f32" "narrow (ieee exp64 exp32) = f32_of_f64"
  by (simp_all add: ieee_def)

lemmas demo_simps = ieee_conv demo_gateway_def demo_request_def demo_world_def alive_def new_channel_def
  routes_slices_def slice_subject_def multi_route_def

lemma demo_run: "\<exists>resp s'. submit_task demo_gateway demo_request demo_world = Some (Reply resp, s')"
proof -
  have "\<exists>w'. submit_task demo_gateway demo_request demo_world =
    Some (Reply \<lparr>ts_message = ''OK'',
      ts_result = map (\<lambda>x. narrow (g_arith demo_gateway) x) [f64_of_f32 demo_prob]\<rparr>, w') \<and>
    live w' (result_key (tr_job_id demo_request)) =
      Some (as_bytes (to_text (g_serde demo_gateway) (json_f64s [f64_of_f32 demo_prob]))) \<and>
    live w' (metadata_key (tr_job_id demo_request)) =
      Some (as_bytes (to_text (g_serde demo_gateway) (metadata_to_json
        \<lparr>jm_job_id = tr_job_id demo_request, jm_task_type = ''softmax'',
         jm_total_slices = length [[f64_of_f32 demo_prob]], jm_created_at = w_secs demo_world,
         jm_status = ''submitted''\<rparr>)))"
    by (rule quiet_submit_task [where slices = "[[f64_of_f32 demo_prob]]"
          and xs = "[payload_stats (ieee id id) demo_slice]"])
      (use demo_slices demo_ready demo_values demo_ttls ref_serde.serde_codec_axioms in
        \<open>simp_all add: demo_simps finite_widen demo_prob_finite\<close>)
  then show ?thesis by blast
qed

text \<open>The same store without any slice.\<close>

definition idle_world :: world where
  "idle_world =
     \<lparr>w_data = [], w_secs = 0, w_mono = 0, w_pub = [], w_others = [], w_notifier = notifier_new,
      w_bus = ZmqPublisher new_channel\<rparr>"

end
