(* ===== verification/Bounds.thy ===== *)
theory Bounds
  imports Softmax
begin

text \<open>
  The range of the computed probabilities, rounding included: whatever the finite inputs and
  whatever errors the additions, multiplications, divisions and conversions make, the values the
  gateway computes on the CPU from the workers' statistics are numbers between 0 and 1. Of the
  platform's \<open>exp\<close> only its range on non-positive arguments and its value at 0 matter.
\<close>

definition in_unit :: "f64 \<Rightarrow> bool" where
  "in_unit x = (case f64_cls x of Fin s m q \<Rightarrow> \<not> s \<and> real m * 2 powi q \<le> 1 | _ \<Rightarrow> False)"

definition nonpositive :: "f64 \<Rightarrow> bool" where
  "nonpositive x = (case f64_cls x of NaN \<Rightarrow> False | Inf s \<Rightarrow> s | Fin s m q \<Rightarrow> s \<or> m = 0)"

text \<open>The non-negative doubles by their codes; \<open>one_code\<close> is the code of 1.\<close>

abbreviation (input) code_of :: "nat \<Rightarrow> f64" where
  "code_of c \<equiv> of_nat (pack b64 False c)"

definition one_code :: "fmt \<Rightarrow> nat" where
  "one_code F = round_code F 1"

lemma mag_val_one: "mag_val b64 (one_code b64) = 1" "mag_val b32 (one_code b32) = 1"
  using round_exact [of 1 b64 0] round_exact [of 1 b32 0]
  by (simp_all add: one_code_def fmt_simps)

lemma one_code_finite: "one_code b64 < inf_mag b64" "one_code b32 < inf_mag b32"
  using mag_val_less_iff [of b64 "one_code b64" "inf_mag b64"]
    mag_val_less_iff [of b32 "one_code b32" "inf_mag b32"]
  by (simp_all add: mag_val_one mag_val_inf_b64 mag_val_inf_b32)

lemma le_one_code: "c \<le> one_code b64 \<longleftrightarrow> mag_val b64 c \<le> 1" "c \<le> one_code b32 \<longleftrightarrow> mag_val b32 c \<le> 1"
  by (metis mag_val_le_iff mag_val_one(1)) (metis mag_val_le_iff mag_val_one(2))

lemma code_eq:
  assumes "code_of c = code_of c'" "c \<le> inf_mag b64" "c' \<le> inf_mag b64"
  shows "c = c'"
proof -
  have "pack b64 False c = pack b64 False c'"
    using arg_cong [OF assms(1), of unat] by (simp only: unat_of_pack64)
  with assms(2,3) show ?thesis by (simp add: pack_def)
qed

lemma in_unit_code: "c \<le> one_code b64 \<Longrightarrow> in_unit (code_of c)"
proof -
  assume c: "c \<le> one_code b64"
  then have "c < inf_mag b64" using one_code_finite by simp
  then obtain m q where "decode b64 (pack b64 False c) = Fin False m q" "real m * 2 powi q = mag_val b64 c"
    by (rule decode_pack [of c b64])
  with c show ?thesis by (simp add: in_unit_def f64_cls_def unat_of_pack64 le_one_code)
qed

lemma in_unitE:
  assumes "in_unit x"
  obtains c where "x = code_of c" "c \<le> one_code b64"
proof -
  have "f64_cls x \<noteq> NaN" using assms by (auto simp: in_unit_def)
  then obtain s c where x: "x = of_nat (pack b64 s c)" "c \<le> inf_mag b64" by (rule f64_cases)
  show thesis
  proof (cases "c < inf_mag b64")
    case True
    then obtain m q where "decode b64 (pack b64 s c) = Fin s m q" "real m * 2 powi q = mag_val b64 c"
      by (rule decode_pack [of c b64])
    with assms x that [of c] show ?thesis by (simp add: in_unit_def f64_cls_def unat_of_pack64 le_one_code)
  next
    case False
    with assms x show ?thesis
      by (simp add: in_unit_def f64_cls_def unat_of_pack64 decode_pack_inf)
  qed
qed

lemma one_is_code: "(0x3FF0000000000000 :: f64) = code_of (one_code b64)"
proof -
  have "mag_val b64 0x3FF0000000000000 = 1"
    by (simp add: mag_val_def fmt_simps)
  then have "one_code b64 = 0x3FF0000000000000"
    by (metis mag_val_eq_iff mag_val_one(1))
  then show ?thesis by (simp add: pack_def fmt_simps)
qed

lemma zero_is_code: "(0 :: f64) = code_of 0"
  by (simp add: pack_def)

section \<open>Operations on non-negative numbers\<close>

lemma add_code:
  assumes "c \<le> inf_mag b64" "c' < inf_mag b64"
  obtains d where "f64_add (code_of c) (code_of c') = code_of d" "c \<le> d" "c' \<le> d" "d \<le> inf_mag b64"
    "c < inf_mag b64 \<Longrightarrow> mag_val b64 d \<le> mag_val b64 (round_code b64 (mag_val b64 c + mag_val b64 c'))"
proof (cases "c < inf_mag b64")
  case True
  let ?r = "round_code b64 (mag_val b64 c + mag_val b64 c')"
  have "round_code b64 (mag_val b64 c) \<le> ?r" "round_code b64 (mag_val b64 c') \<le> ?r"
    by (intro round_code_mono; simp)+
  then have "c \<le> min ?r (inf_mag b64)" "c' \<le> min ?r (inf_mag b64)" using assms by auto
  moreover have "f64_add (code_of c) (code_of c') = code_of (min ?r (inf_mag b64))"
    using True assms(2) by (simp add: f64_add_def unat_of_pack64 add_pack) (simp add: pack_def)
  ultimately show thesis using that [of "min ?r (inf_mag b64)"] by simp
next
  case False
  then have c: "c = inf_mag b64" using assms(1) by simp
  obtain m q where "decode b64 (pack b64 False c') = Fin False m q"
    using assms(2) by (rule decode_pack [of c' b64])
  then have "f64_add (code_of c) (code_of c') = code_of (inf_mag b64)"
    by (simp add: f64_add_def unat_of_pack64 add_bits_def decode_pack_inf c)
  with c assms(2) show thesis using that [of "inf_mag b64"] by simp
qed

lemma add_neg_zero:
  assumes "c < inf_mag b64"
  shows "f64_add 0x8000000000000000 (code_of c) = code_of c"
proof -
  obtain m q where d: "decode b64 (pack b64 False c) = Fin False m q" "qmin b64 \<le> q"
      "real m * 2 powi q = mag_val b64 c"
    using assms by (rule decode_pack [of c b64])
  have nz: "unat (0x8000000000000000 :: f64) = 0x8000000000000000" by simp
  have z: "decode b64 0x8000000000000000 = Fin True 0 (qmin b64)"
    by (simp add: decode_def Let_def fmt_simps)
  have k: "min (qmin b64) q = qmin b64" using d(2) by simp
  let ?n = "m * 2 ^ nat (q - qmin b64)"
  have "real ?n * 2 powi qmin b64 = real m * 2 powi q"
    using d(2) by (simp add: mult.assoc) (simp flip: power_int_of_nat power_int_add)
  then have r: "round_mag b64 ?n 1 (qmin b64) = c"
    by (subst round_mag_code) (simp_all add: d(3))
  have i: "signed_mant True 0 * 2 ^ nat (qmin b64 - qmin b64) + signed_mant False m * 2 ^ nat (q - qmin b64) =
      int ?n"
    by (simp add: signed_mant_def)
  have "add_bits b64 0x8000000000000000 (pack b64 False c) = pack b64 False c"
    by (simp only: add_bits_def z d(1) fp.case Let_def k i simp_thms pack_round_int r)
  then show ?thesis by (simp add: f64_add_def unat_of_pack64 nz)
qed

lemma mul_code:
  assumes "c < inf_mag b64" "a \<le> one_code b64"
  obtains d where "f64_mul (code_of c) (code_of a) = code_of d" "d \<le> c" "a = one_code b64 \<Longrightarrow> d = c"
proof -
  let ?d = "round_code b64 (mag_val b64 c * mag_val b64 a)"
  have "a < inf_mag b64" using assms(2) one_code_finite by simp
  then have "f64_mul (code_of c) (code_of a) = code_of ?d"
    using assms(1) by (simp add: f64_mul_def unat_of_pack64 mul_pack)
  moreover have "round_code b64 (mag_val b64 c * mag_val b64 a) \<le> round_code b64 (mag_val b64 c)"
    using assms(2) by (intro round_code_mono) (simp_all add: le_one_code mult_left_le)
  moreover have "?d = c" if "a = one_code b64" using that by (simp add: mag_val_one)
  ultimately show thesis using that [of ?d] by simp
qed

lemma div_code:
  assumes "a \<le> one_code b64" "one_code b64 \<le> c" "c \<le> inf_mag b64"
  shows "in_unit (f64_div (code_of a) (code_of c))"
proof (cases "c < inf_mag b64")
  case True
  have a: "a < inf_mag b64" using assms(1) one_code_finite by simp
  have one: "1 \<le> mag_val b64 c" using assms(2) mag_val_le_iff [of b64 "one_code b64" c] by (simp add: mag_val_one)
  then have c: "0 < c" by (cases c) auto
  have "mag_val b64 a / mag_val b64 c \<le> 1" using assms(1,2) one by (simp add: divide_le_eq)
  then have "round_code b64 (mag_val b64 a / mag_val b64 c) \<le> one_code b64"
    unfolding one_code_def using one by (intro round_code_mono) simp_all
  then show ?thesis
    using True a c by (simp add: f64_div_def unat_of_pack64 div_pack in_unit_code)
next
  case False
  then have c: "c = inf_mag b64" using assms(3) by simp
  have "a < inf_mag b64" using assms(1) one_code_finite by simp
  then obtain m q where "decode b64 (pack b64 False a) = Fin False m q" by (rule decode_pack [of a b64])
  then have "f64_div (code_of a) (code_of c) = code_of 0"
    by (simp add: f64_div_def unat_of_pack64 div_bits_def decode_pack_inf c)
  then show ?thesis by (simp add: in_unit_code)
qed

lemma convert_unit:
  assumes "c \<le> one_code b64"
  obtains d where "f64_of_f32 (f32_of_f64 (code_of c)) = code_of d" "d \<le> one_code b64"
    "c = one_code b64 \<Longrightarrow> d = one_code b64"
proof -
  let ?e = "round_code b32 (mag_val b64 c)"
  have c: "c < inf_mag b64" using assms one_code_finite by simp
  have "?e \<le> round_code b32 1" using assms by (intro round_code_mono) (simp_all add: le_one_code)
  then have e: "?e \<le> one_code b32" by (simp add: one_code_def)
  then have fin: "?e < inf_mag b32" using one_code_finite by simp
  let ?d = "round_code b64 (mag_val b32 ?e)"
  have "f32_of_f64 (code_of c) = of_nat (pack b32 False ?e)"
    using c by (simp add: f32_of_f64_def unat_of_pack64 conv_pack)
  then have "f64_of_f32 (f32_of_f64 (code_of c)) = code_of ?d"
    using fin by (simp add: f64_of_f32_pack)
  moreover have "?d \<le> round_code b64 1" using e by (intro round_code_mono) (simp_all add: le_one_code)
  moreover have "?d = one_code b64" if "c = one_code b64"
    using that by (simp add: mag_val_one flip: one_code_def)
  ultimately show thesis using that [of ?d] by (simp add: one_code_def)
qed


section \<open>Comparison and the maximum\<close>

definition fp_val :: "fp \<Rightarrow> real" where
  "fp_val v = (case v of Fin s m q \<Rightarrow> (if s then - (real m * 2 powi q) else real m * 2 powi q) | _ \<Rightarrow> 0)"

lemma signed_align:
  assumes "k \<le> q"
  shows "real_of_int (signed_mant s m * 2 ^ nat (q - k)) * 2 powi k = fp_val (Fin s m q)"
proof -
  have "2 ^ nat (q - k) * 2 powi k = (2 :: real) powi q"
    using assms by (subst power_int_of_nat [symmetric], subst power_int_add [symmetric]) auto
  then show ?thesis by (simp add: fp_val_def signed_mant_def mult.assoc)
qed

lemma scale_less: "i < j \<longleftrightarrow> real_of_int i * 2 powi k < real_of_int j * 2 powi k"
  by simp

lemma scale_le_0: "real_of_int i * 2 powi k \<le> 0 \<longleftrightarrow> i \<le> 0"
  using scale_less [of 0 i k] by (simp only: of_int_0 mult_zero_left not_less [symmetric])

lemma scale_eq_0: "real_of_int i * 2 powi k = 0 \<longleftrightarrow> i = 0"
  by simp

lemma less_bits_val:
  assumes "decode F x = Fin s m q" "decode F y = Fin s' m' q'"
  shows "less_bits F x y \<longleftrightarrow> fp_val (decode F x) < fp_val (decode F y)"
proof -
  let ?k = "min q q'"
  let ?i = "signed_mant s m * 2 ^ nat (q - ?k)" and ?j = "signed_mant s' m' * 2 ^ nat (q' - ?k)"
  have "?i < ?j \<longleftrightarrow> real_of_int ?i * 2 powi ?k < real_of_int ?j * 2 powi ?k" by (rule scale_less)
  also have "\<dots> \<longleftrightarrow> fp_val (decode F x) < fp_val (decode F y)"
    unfolding assms using signed_align [of ?k q s m] signed_align [of ?k q' s' m'] by simp
  finally show ?thesis by (simp add: less_bits_def assms Let_def)
qed

lemma finite_fpE:
  assumes "finite_fp v"
  obtains s m q where "v = Fin s m q"
  using assms by (cases v) auto

lemma f64_max_finite:
  assumes "finite_fp (f64_cls x)" "finite_fp (f64_cls y)"
  shows "f64_max x y = (if fp_val (f64_cls x) < fp_val (f64_cls y) then y else x)"
proof -
  obtain s m q s' m' q' where d: "decode b64 (unat x) = Fin s m q" "decode b64 (unat y) = Fin s' m' q'"
    using assms unfolding f64_cls_def by (metis finite_fpE)
  from less_bits_val [OF d] d show ?thesis
    by (simp add: f64_max_def max_bits_def f64_cls_def)
qed

lemma f64_max_ninf:
  assumes "finite_fp (f64_cls y)"
  shows "f64_max 0xFFF0000000000000 y = y"
proof -
  obtain s m q where d: "decode b64 (unat y) = Fin s m q"
    using assms unfolding f64_cls_def by (metis finite_fpE)
  have "decode b64 (unat (0xFFF0000000000000 :: f64)) = Inf True"
    by (simp add: decode_def Let_def fmt_simps)
  with d show ?thesis by (simp add: f64_max_def max_bits_def less_bits_def)
qed

lemma foldl_max_finite:
  assumes "finite_fp (f64_cls a)" "list_all (\<lambda>x. finite_fp (f64_cls x)) xs"
  shows "foldl f64_max a xs \<in> set (a # xs) \<and>
    (\<forall>x \<in> set (a # xs). fp_val (f64_cls x) \<le> fp_val (f64_cls (foldl f64_max a xs)))"
  using assms
proof (induction xs arbitrary: a)
  case (Cons x xs)
  have m: "f64_max a x = (if fp_val (f64_cls a) < fp_val (f64_cls x) then x else a)"
    using Cons.prems by (intro f64_max_finite) simp_all
  then have "finite_fp (f64_cls (f64_max a x))" using Cons.prems by simp
  from Cons.IH [OF this] Cons.prems m show ?case by (auto split: if_splits)
qed simp

text \<open>The maximum of finite numbers is one of them, and none exceeds it.\<close>

lemma d_maximum_finite:
  assumes "xs \<noteq> []" "list_all (\<lambda>x. finite_fp (f64_cls x)) xs"
  shows "d_maximum (ieee e e') xs \<in> set xs"
    and "x \<in> set xs \<Longrightarrow> fp_val (f64_cls x) \<le> fp_val (f64_cls (d_maximum (ieee e e') xs))"
proof -
  obtain a ys where xs: "xs = a # ys" using assms(1) by (cases xs) auto
  have "d_maximum (ieee e e') xs = foldl f64_max a ys"
    using assms(2) f64_max_ninf [of a] by (simp add: d_maximum_def ieee_def xs)
  with foldl_max_finite [of a ys] assms(2)
  show "d_maximum (ieee e e') xs \<in> set xs"
    and "x \<in> set xs \<Longrightarrow> fp_val (f64_cls x) \<le> fp_val (f64_cls (d_maximum (ieee e e') xs))"
    by (auto simp: xs)
qed

section \<open>Subtracting the maximum\<close>

lemma neg_bits_pack: "neg_bits F (pack F s c) = pack F (\<not> s) c"
proof -
  have "min c (inf_mag F) < sign_bit F" using inf_mag_less_sign_bit [of F] by (auto simp: min_def)
  then show ?thesis using pack_split(1) [of F s c] by (auto simp: neg_bits_def pack_def)
qed

lemma fp_val_pack: "c < inf_mag F \<Longrightarrow> fp_val (decode F (pack F s c)) = (if s then - mag_val F c else mag_val F c)"
  by (rule decode_pack [of c F s]) (auto simp: fp_val_def)

lemma sub_nonpositive:
  assumes "finite_fp (f64_cls x)" "finite_fp (f64_cls y)" "fp_val (f64_cls x) \<le> fp_val (f64_cls y)"
  shows "nonpositive (f64_sub x y)" and "x = y \<Longrightarrow> f64_sub x y = 0"
proof -
  obtain s c where x: "x = of_nat (pack b64 s c)" "c \<le> inf_mag b64"
    using f64_cases [of x] assms(1) by (metis finite_fp.simps(2))
  obtain s' c' where y: "y = of_nat (pack b64 s' c')" "c' \<le> inf_mag b64"
    using f64_cases [of y] assms(2) by (metis finite_fp.simps(2))
  have c: "c < inf_mag b64" "c' < inf_mag b64"
    using assms(1,2) by (simp_all add: x(1) y(1) f64_finite_pack)
  have le: "fp_val (decode b64 (pack b64 s c)) \<le> fp_val (decode b64 (pack b64 s' c'))"
    using assms(3) by (simp add: x(1) y(1) f64_cls_def unat_of_pack64)
  obtain m q where d: "decode b64 (pack b64 s c) = Fin s m q" by (rule decode_pack [OF c(1)])
  obtain m' q' where d': "decode b64 (pack b64 (\<not> s') c') = Fin (\<not> s') m' q'" by (rule decode_pack [OF c(2)])
  let ?k = "min q q'"
  let ?i = "signed_mant s m * 2 ^ nat (q - ?k) + signed_mant (\<not> s') m' * 2 ^ nat (q' - ?k)"
  have "real_of_int ?i * 2 powi ?k = fp_val (Fin s m q) + fp_val (Fin (\<not> s') m' q')"
    using signed_align [of ?k q s m] signed_align [of ?k q' "\<not> s'" m'] by (simp add: distrib_right)
  also have "\<dots> = fp_val (decode b64 (pack b64 s c)) - fp_val (decode b64 (pack b64 s' c'))"
    using fp_val_pack [OF c(2), of "\<not> s'"] fp_val_pack [OF c(2), of s'] by (simp add: d d')
  finally have v: "real_of_int ?i * 2 powi ?k =
      fp_val (decode b64 (pack b64 s c)) - fp_val (decode b64 (pack b64 s' c'))" .
  then have "real_of_int ?i * 2 powi ?k \<le> 0" using le by simp
  then have i: "?i \<le> 0" by (simp only: scale_le_0)
  have sub: "f64_sub x y = of_nat (if ?i = 0 then pack b64 (s \<and> \<not> s') 0
      else pack b64 (?i < 0) (round_mag b64 (nat \<bar>?i\<bar>) 1 ?k))"
    by (simp add: f64_sub_def x(1) y(1) unat_of_pack64 neg_bits_pack add_bits_def d d' Let_def)
  have np: "nonpositive (of_nat (pack b64 True c))" for c
    by (cases "c < inf_mag b64")
      (auto simp: nonpositive_def f64_cls_def unat_of_pack64 decode_pack_inf elim: decode_pack [of c b64 True])
  have "nonpositive (of_nat (pack b64 False 0))"
    by (simp add: nonpositive_def f64_cls_def unat_of_pack64 decode_def Let_def pack_def fmt_simps)
  with np have zero: "nonpositive (of_nat (pack b64 (s \<and> \<not> s') 0))" by (cases s; cases s') simp_all
  show "nonpositive (f64_sub x y)"
  proof (cases "?i = 0")
    case True
    show ?thesis unfolding sub if_P [OF True] by (rule zero)
  next
    case False
    with i have neg: "?i < 0" by (rule le_neq_trans)
    show ?thesis unfolding sub if_not_P [OF False] by (simp only: neg np)
  qed
  assume "x = y"
  then have eq: "pack b64 s c = pack b64 s' c'"
    by (metis unat_of_pack64 x(1) y(1))
  have ss: "s = s'"
    using pack_split(1) [of b64 s c] pack_split(1) [of b64 s' c'] unfolding eq by (cases s; cases s') simp_all
  have "real_of_int ?i * 2 powi ?k = 0" unfolding v eq by (rule diff_self)
  then have i0: "?i = 0" by (simp only: scale_eq_0)
  show "f64_sub x y = 0" unfolding sub if_P [OF i0] by (simp add: ss pack_def)
qed

section \<open>Sums\<close>

text \<open>A sum is at least each of its terms; \<open>b\<close> terms of at most 1 sum up to at most \<open>b\<close>.\<close>

lemma foldl_add_ge:
  assumes "a \<le> inf_mag b64" "\<forall>c \<in> set cs. c < inf_mag b64"
  shows "\<exists>d \<le> inf_mag b64. foldl f64_add (code_of a) (map code_of cs) = code_of d \<and> (\<forall>c \<in> set (a # cs). c \<le> d)"
  using assms
proof (induction cs arbitrary: a)
  case (Cons c cs)
  have "c < inf_mag b64" using Cons.prems by simp
  from add_code [OF Cons.prems(1) this] obtain d where
    d: "f64_add (code_of a) (code_of c) = code_of d" "a \<le> d" "c \<le> d" "d \<le> inf_mag b64" by blast
  from Cons.IH [OF d(4)] Cons.prems(2) obtain e where
    e: "e \<le> inf_mag b64" "foldl f64_add (code_of d) (map code_of cs) = code_of e" "\<forall>c \<in> set (d # cs). c \<le> e"
    by auto
  then show ?case using d by (intro exI [of _ e]) auto
qed auto

lemma d_sum_codes:
  assumes "cs \<noteq> []" "\<forall>c \<in> set cs. c < inf_mag b64"
  shows "\<exists>d \<le> inf_mag b64. d_sum (ieee e e') (map code_of cs) = code_of d \<and> (\<forall>c \<in> set cs. c \<le> d)"
proof -
  obtain a as where cs: "cs = a # as" using assms(1) by (cases cs) auto
  have "d_sum (ieee e e') (map code_of cs) = foldl f64_add (code_of a) (map code_of as)"
    using assms(2) by (simp add: d_sum_def ieee_def cs add_neg_zero)
  with foldl_add_ge [of a as] assms(2) show ?thesis by (auto simp: cs)
qed

lemma round_of_nat: "n < 2 ^ 53 \<Longrightarrow> mag_val b64 (round_code b64 (real n)) = real n"
  using round_exact [of n b64 0] by (simp add: fmt_simps)

lemma bounded_finite:
  assumes "mag_val b64 a \<le> real n" "n < 2 ^ 53"
  shows "a < inf_mag b64"
proof -
  have "real n < real (2 ^ 53)" using assms(2) by (simp only: of_nat_less_iff)
  also have "\<dots> = 2 powi 53" by simp
  also have "\<dots> < 2 powi 1024" by (rule power_int_strict_increasing) simp_all
  finally have "mag_val b64 a < mag_val b64 (inf_mag b64)"
    using assms(1) by (simp only: mag_val_inf_b64)
  then show ?thesis by simp
qed

lemma foldl_add_bound:
  assumes "mag_val b64 a \<le> real n" "\<forall>c \<in> set cs. c \<le> one_code b64" "n + length cs < 2 ^ 53"
  shows "\<exists>d. foldl f64_add (code_of a) (map code_of cs) = code_of d \<and> d < inf_mag b64"
  using assms
proof (induction cs arbitrary: a n)
  case Nil
  then show ?case using bounded_finite [of a n] by auto
next
  case (Cons c cs)
  have a: "a < inf_mag b64" using bounded_finite [OF Cons.prems(1)] Cons.prems(3) by simp
  have c: "c < inf_mag b64" using Cons.prems(2) one_code_finite by auto
  from add_code [OF less_imp_le [OF a] c] a obtain d where
    d: "f64_add (code_of a) (code_of c) = code_of d"
      "mag_val b64 d \<le> mag_val b64 (round_code b64 (mag_val b64 a + mag_val b64 c))" by blast
  have "mag_val b64 a + mag_val b64 c \<le> real (n + 1)"
    using Cons.prems(1,2) by (simp add: le_one_code)
  then have "round_code b64 (mag_val b64 a + mag_val b64 c) \<le> round_code b64 (real (n + 1))"
    by (intro round_code_mono) simp_all
  then have "mag_val b64 (round_code b64 (mag_val b64 a + mag_val b64 c)) \<le>
      mag_val b64 (round_code b64 (real (n + 1)))"
    by (simp only: mag_val_le_iff)
  also have "\<dots> = real (n + 1)" using Cons.prems(3) by (intro round_of_nat) simp
  finally have "mag_val b64 d \<le> real (n + 1)" using d(2) by linarith
  from Cons.IH [OF this] Cons.prems(2,3) d(1) show ?case by simp
qed

lemma d_sum_bound:
  assumes "\<forall>c \<in> set cs. c \<le> one_code b64" "cs \<noteq> []" "length cs < 2 ^ 53"
  shows "\<exists>d. d_sum (ieee e e') (map code_of cs) = code_of d \<and> d < inf_mag b64 \<and> (\<forall>c \<in> set cs. c \<le> d)"
proof -
  obtain a as where cs: "cs = a # as" using assms(2) by (cases cs) auto
  have fin: "\<forall>c \<in> set cs. c < inf_mag b64" using assms(1) one_code_finite by auto
  then have "d_sum (ieee e e') (map code_of cs) = foldl f64_add (code_of a) (map code_of as)"
    by (simp add: d_sum_def ieee_def cs add_neg_zero)
  moreover obtain d where d: "foldl f64_add (code_of a) (map code_of as) = code_of d" "d < inf_mag b64"
    using foldl_add_bound [of a 1 as] assms(1,3) by (auto simp: cs le_one_code)
  moreover obtain d' where "d' \<le> inf_mag b64" "d_sum (ieee e e') (map code_of cs) = code_of d'"
      "\<forall>c \<in> set cs. c \<le> d'"
    using d_sum_codes [OF assms(2) fin] by blast
  moreover have "d' = d" if "code_of d = code_of d'" "d' \<le> inf_mag b64" for d'
    using arg_cong [OF that(1), of unat] that(2) d(2) by (simp add: unat_of_pack64) (simp add: pack_def)
  ultimately show ?thesis by metis
qed

section \<open>The worker's statistics and the gateway's values\<close>

text \<open>What is used of the platform's \<open>exp\<close>.\<close>

definition exp_law :: "(f64 \<Rightarrow> f64) \<Rightarrow> bool" where
  "exp_law e \<longleftrightarrow> (\<forall>x. nonpositive x \<longrightarrow> in_unit (e x)) \<and> e 0 = 0x3FF0000000000000"

abbreviation finite_slice :: "f64 list \<Rightarrow> bool" where
  "finite_slice xs \<equiv> xs \<noteq> [] \<and> list_all (\<lambda>x. finite_fp (f64_cls x)) xs \<and> length xs < 2 ^ 53"

lemma map_codes: "(\<And>x. x \<in> set xs \<Longrightarrow> in_unit x) \<Longrightarrow>
    \<exists>cs. xs = map code_of cs \<and> (\<forall>c \<in> set cs. c \<le> one_code b64)"
proof (induction xs)
  case (Cons x xs)
  from Cons.prems [of x] obtain c where c: "x = code_of c" "c \<le> one_code b64" by (auto elim: in_unitE)
  from Cons obtain cs where "xs = map code_of cs" "\<forall>c \<in> set cs. c \<le> one_code b64" by auto
  with c show ?case by (intro exI [of _ "c # cs"]) simp
qed simp

text \<open>
  The statistics of a finite slice: the maximum is one of its entries, the exponentials are between
  0 and 1, and the sum is a finite number of at least 1.
\<close>

lemma worker_stats_range:
  fixes e' :: "f32 \<Rightarrow> f32"
  assumes "exp_law e" "finite_slice xs"
  defines "p \<equiv> slice_of_partial (ieee e e') (softmax_partial (ieee e e') xs)"
  shows "ss_local_max p \<in> set xs" and "list_all in_unit (ss_exp_values p)"
    and "\<exists>d. ss_partial_sum p = code_of d \<and> one_code b64 \<le> d \<and> d < inf_mag b64"
proof -
  let ?A = "ieee e e'" and ?m = "d_maximum (ieee e e') xs"
  let ?conv = "\<lambda>x. f64_of_f32 (f32_of_f64 (e (f64_sub x ?m)))"
  have sel: "narrow ?A = f32_of_f64" "widen ?A = f64_of_f32" "d_exp ?A = e" "d_sub ?A = f64_sub"
    by (simp_all add: ieee_def)
  have xs: "xs \<noteq> []" and fin: "list_all (\<lambda>x. finite_fp (f64_cls x)) xs" using assms(2) by simp_all
  note max = d_maximum_finite [OF xs fin, where e = e and e' = e']
  have p: "ss_local_max p = ?m" "ss_exp_values p = map ?conv xs" "ss_partial_sum p = d_sum ?A (map ?conv xs)"
    using xs by (simp_all add: p_def slice_of_partial_def softmax_partial_def Let_def sel comp_def)
  show "ss_local_max p \<in> set xs" using max(1) by (simp add: p)
  have fin_m: "finite_fp (f64_cls ?m)" using max(1) fin by (auto simp: list_all_iff)
  have unit: "in_unit (?conv x)" if x: "x \<in> set xs" for x
  proof -
    have "finite_fp (f64_cls x)" using fin x by (auto simp: list_all_iff)
    from sub_nonpositive(1) [OF this fin_m max(2) [OF x]] have "in_unit (e (f64_sub x ?m))"
      using assms(1) by (simp add: exp_law_def)
    then obtain c where c: "e (f64_sub x ?m) = code_of c" "c \<le> one_code b64" by (rule in_unitE)
    from convert_unit [OF c(2)] obtain d where "?conv x = code_of d" "d \<le> one_code b64"
      by (metis c(1))
    then show ?thesis by (simp add: in_unit_code)
  qed
  have one: "?conv ?m = code_of (one_code b64)"
  proof -
    have "e (f64_sub ?m ?m) = code_of (one_code b64)"
      using sub_nonpositive(2) [OF fin_m fin_m] assms(1) by (simp add: exp_law_def one_is_code)
    then show ?thesis using convert_unit [of "one_code b64"] by (metis le_refl)
  qed
  show "list_all in_unit (ss_exp_values p)" using unit by (simp add: p list_all_iff)
  obtain cs where cs: "map ?conv xs = map code_of cs" "\<forall>c \<in> set cs. c \<le> one_code b64"
    using map_codes [of "map ?conv xs"] unit by auto
  have "?conv ?m \<in> set (map ?conv xs)" unfolding set_map by (rule imageI) (rule max(1))
  then have "code_of (one_code b64) \<in> code_of ` set cs" unfolding cs(1) one set_map .
  then obtain c where c: "code_of (one_code b64) = code_of c" "c \<in> set cs" by (rule imageE)
  have "c \<le> one_code b64" using cs(2) c(2) by blast
  then have "one_code b64 = c"
    using code_eq [OF c(1)] less_imp_le [OF one_code_finite(1)] by (meson order_trans)
  moreover have len: "length cs = length xs" using arg_cong [OF cs(1), of length] by simp
  moreover from len xs have "cs \<noteq> []" by auto
  moreover have "length cs < 2 ^ 53" using len assms(2) by simp
  ultimately show "\<exists>d. ss_partial_sum p = code_of d \<and> one_code b64 \<le> d \<and> d < inf_mag b64"
    using d_sum_bound [of cs, where e = e and e' = e'] cs c(2) by (metis p(3))
qed

text \<open>Statistics as a finite slice leads to, whatever the slice.\<close>

definition stats_in_range :: "f64 slice_stats \<Rightarrow> bool" where
  "stats_in_range st \<longleftrightarrow> finite_fp (f64_cls (ss_local_max st)) \<and> list_all in_unit (ss_exp_values st) \<and>
     (\<exists>d. ss_partial_sum st = code_of d \<and> one_code b64 \<le> d \<and> d < inf_mag b64)"

lemma adjust_range:
  fixes e' :: "f32 \<Rightarrow> f32"
  assumes "exp_law e" "list_all stats_in_range stats" "stats \<noteq> []" "st \<in> set stats"
  defines "g \<equiv> d_maximum (ieee e e') (map ss_local_max stats)"
  shows "in_unit (e (f64_sub (ss_local_max st) g))"
    and "ss_local_max st = g \<Longrightarrow> e (f64_sub (ss_local_max st) g) = code_of (one_code b64)"
    and "\<exists>top \<in> set stats. ss_local_max top = g"
proof -
  let ?maxs = "map ss_local_max stats"
  have fin: "finite_fp (f64_cls (ss_local_max st))" if "st \<in> set stats" for st
    using assms(2) that by (auto simp: list_all_iff stats_in_range_def)
  have "?maxs \<noteq> []" "list_all (\<lambda>x. finite_fp (f64_cls x)) ?maxs"
    using assms(3) fin by (simp_all add: list_all_iff)
  note max = d_maximum_finite [OF this, where e = e and e' = e', folded g_def]
  show "\<exists>top \<in> set stats. ss_local_max top = g" using max(1) by auto
  then have "finite_fp (f64_cls g)" using fin by blast
  moreover have "fp_val (f64_cls (ss_local_max st)) \<le> fp_val (f64_cls g)"
    using assms(4) by (intro max(2)) simp
  ultimately have sub: "nonpositive (f64_sub (ss_local_max st) g)"
      "ss_local_max st = g \<Longrightarrow> f64_sub (ss_local_max st) g = 0"
    using sub_nonpositive [OF fin [OF assms(4)]] by blast+
  show "in_unit (e (f64_sub (ss_local_max st) g))" using sub(1) assms(1) by (simp only: exp_law_def)
  show "ss_local_max st = g \<Longrightarrow> e (f64_sub (ss_local_max st) g) = code_of (one_code b64)"
    using sub(2) assms(1) by (simp only: exp_law_def one_is_code)
qed

lemma global_sum_range:
  fixes e' :: "f32 \<Rightarrow> f32"
  assumes "exp_law e" "list_all stats_in_range stats" "stats \<noteq> []"
  defines "g \<equiv> d_maximum (ieee e e') (map ss_local_max stats)"
  shows "\<exists>S. d_sum (ieee e e') (map (\<lambda>st. f64_mul (ss_partial_sum st) (e (f64_sub (ss_local_max st) g))) stats) =
    code_of S \<and> one_code b64 \<le> S \<and> S \<le> inf_mag b64"
proof -
  define adj where "adj = (\<lambda>st :: f64 slice_stats. e (f64_sub (ss_local_max st) g))"
  have adj: "in_unit (adj st)" "ss_local_max st = g \<Longrightarrow> adj st = code_of (one_code b64)"
    if "st \<in> set stats" for st
    using adjust_range(1,2) [OF assms(1-3) that, of e', folded g_def] by (simp_all add: adj_def)
  have "\<exists>r. f64_mul (ss_partial_sum st) (adj st) = code_of r \<and> r < inf_mag b64 \<and>
      (ss_local_max st = g \<longrightarrow> one_code b64 \<le> r)" if st: "st \<in> set stats" for st
  proof -
    obtain d where d: "ss_partial_sum st = code_of d" "one_code b64 \<le> d" "d < inf_mag b64"
      using assms(2) st by (auto simp: list_all_iff stats_in_range_def)
    obtain a where a: "adj st = code_of a" "a \<le> one_code b64" using adj(1) [OF st] by (rule in_unitE)
    obtain r where r: "f64_mul (code_of d) (code_of a) = code_of r" "r \<le> d" "a = one_code b64 \<Longrightarrow> r = d"
      using mul_code [OF d(3) a(2)] by blast
    have "a = one_code b64" if "ss_local_max st = g"
    proof (rule code_eq)
      show "code_of a = code_of (one_code b64)" using adj(2) [OF st that] by (simp only: a(1))
    qed (use a(2) one_code_finite(1) in linarith)+
    then have "ss_local_max st = g \<longrightarrow> one_code b64 \<le> r" using r(3) d(2) by blast
    moreover have "f64_mul (ss_partial_sum st) (adj st) = code_of r" using r(1) by (simp only: d(1) a(1))
    moreover have "r < inf_mag b64" using r(2) d(3) by linarith
    ultimately show ?thesis by blast
  qed
  then obtain t where t: "\<And>st. st \<in> set stats \<Longrightarrow> f64_mul (ss_partial_sum st) (adj st) = code_of (t st)"
      "\<And>st. st \<in> set stats \<Longrightarrow> t st < inf_mag b64"
      "\<And>st. st \<in> set stats \<Longrightarrow> ss_local_max st = g \<Longrightarrow> one_code b64 \<le> t st" by metis
  have eq: "map (\<lambda>st. f64_mul (ss_partial_sum st) (adj st)) stats = map code_of (map t stats)"
    unfolding map_map by (rule map_cong) (simp_all only: t(1) o_def)
  have "map t stats \<noteq> []" "\<forall>c \<in> set (map t stats). c < inf_mag b64" using assms(3) t(2) by simp_all
  from d_sum_codes [OF this, where e = e and e' = e'] obtain S where
    S: "S \<le> inf_mag b64" "d_sum (ieee e e') (map code_of (map t stats)) = code_of S"
      "\<forall>c \<in> set (map t stats). c \<le> S" by blast
  obtain st where "st \<in> set stats" by (cases stats) (use assms(3) in auto)
  from adjust_range(3) [OF assms(1-3) this, of e', folded g_def] obtain top where
    "top \<in> set stats" "ss_local_max top = g" by blast
  then have "one_code b64 \<le> t top" "t top \<le> S" using t(3) S(3) by simp_all
  then have "one_code b64 \<le> S" by linarith
  with S(1,2) eq show ?thesis unfolding adj_def by metis
qed

lemma aggregate_range:
  assumes "exp_law e" "list_all stats_in_range stats"
  shows "list_all in_unit (aggregate_softmax_cpu (ieee e e') stats)"
proof (cases "stats = []")
  case False
  define g where "g = d_maximum (ieee e e') (map ss_local_max stats)"
  define adj where "adj = (\<lambda>st :: f64 slice_stats. e (f64_sub (ss_local_max st) g))"
  define gs where "gs = d_sum (ieee e e') (map (\<lambda>st. f64_mul (ss_partial_sum st) (adj st)) stats)"
  obtain S where S: "gs = code_of S" "one_code b64 \<le> S" "S \<le> inf_mag b64"
    using global_sum_range [OF assms False, of e'] unfolding gs_def adj_def g_def by blast
  have out: "in_unit (f64_div (f64_mul ev (adj st)) gs)"
    if st: "st \<in> set stats" and "ev \<in> set (ss_exp_values st)" for st ev
  proof -
    have "in_unit ev" using assms(2) that by (auto simp: list_all_iff stats_in_range_def)
    then obtain c where c: "ev = code_of c" "c \<le> one_code b64" by (rule in_unitE)
    have "in_unit (adj st)"
      using adjust_range(1) [OF assms False st, of e'] by (simp add: adj_def g_def)
    then obtain a where a: "adj st = code_of a" "a \<le> one_code b64" by (rule in_unitE)
    have "c < inf_mag b64" using c(2) one_code_finite by simp
    from mul_code [OF this a(2)] obtain d where d: "f64_mul (code_of c) (code_of a) = code_of d" "d \<le> c"
      by blast
    have "d \<le> one_code b64" using d(2) c(2) by linarith
    then have "in_unit (f64_div (code_of d) (code_of S))" using S(2,3) by (rule div_code)
    then show ?thesis by (simp only: c(1) a(1) d(1) S(1))
  qed
  have "aggregate_softmax_cpu (ieee e e') stats =
      concat (map (\<lambda>st. map (\<lambda>ev. f64_div (f64_mul ev (adj st)) gs) (ss_exp_values st)) stats)"
    using False
    by (simp add: aggregate_softmax_cpu_def Let_def gs_def adj_def g_def zip_map2 zip_same_conv_map comp_def)
      (simp add: ieee_def)
  with out show ?thesis by (auto simp: list_all_iff)
qed (simp add: aggregate_softmax_cpu_def)

lemma cpu_range:
  assumes "exp_law e" "\<forall>xs \<in> set slices. finite_slice xs"
  shows "list_all in_unit (aggregate_softmax_cpu (ieee e e')
    (map (\<lambda>xs. slice_of_partial (ieee e e') (softmax_partial (ieee e e') xs)) slices))"
proof (rule aggregate_range [OF assms(1)])
  show "list_all stats_in_range
      (map (\<lambda>xs. slice_of_partial (ieee e e') (softmax_partial (ieee e e') xs)) slices)"
    unfolding list_all_iff set_map
  proof (intro ballI, elim imageE)
    fix st xs
    assume st: "st = slice_of_partial (ieee e e') (softmax_partial (ieee e e') xs)" and "xs \<in> set slices"
    then have xs: "finite_slice xs" using assms(2) by blast
    note range = worker_stats_range [OF assms(1) xs, of e', folded st]
    have "finite_fp (f64_cls (ss_local_max st))" using range(1) xs by (auto simp: list_all_iff)
    with range(2,3) show "stats_in_range st" by (simp add: stats_in_range_def)
  qed
qed

text \<open>
  C4: every value the gateway computes on the CPU from the statistics of finite slices is a number
  between 0 and 1, with all rounding taken into account: no NaN, no infinity, no negative value,
  no overflow. The slices are computed by CPU workers with the same platform's \<open>exp\<close>.
\<close>

theorem cpu_softmax_in_unit_interval:
  assumes "exp_law e" "\<forall>xs \<in> set slices. finite_slice xs"
  shows "list_all in_unit (aggregate_softmax_cpu (ieee e e')
    (map (\<lambda>xs. slice_of_partial (ieee e e') (softmax_partial (ieee e e') xs)) slices))"
  using cpu_range [OF assms] .

text \<open>A crude \<open>exp\<close> that keeps the law.\<close>

definition step_exp :: "f64 \<Rightarrow> f64" where
  "step_exp x = (if x = 0 then 0x3FF0000000000000 else 0)"

lemma step_exp_law: "exp_law step_exp"
  using in_unit_code [of 0] in_unit_code [of "one_code b64"]
  by (simp add: exp_law_def step_exp_def one_is_code flip: zero_is_code)

lemma cpu_softmax_in_unit_interval_witness:
  "list_all in_unit (aggregate_softmax_cpu (ieee step_exp id)
    (map (\<lambda>xs. slice_of_partial (ieee step_exp id) (softmax_partial (ieee step_exp id) xs))
      [[0, 0x4000000000000000], [0xC000000000000000]]))"
  by (rule cpu_softmax_in_unit_interval [OF step_exp_law])
    (simp add: f64_cls_def decode_def Let_def fmt_simps)

end
