(* ===== verification/Reading.thy ===== *)
theory Reading
  imports Bounds Ref_Serde
begin

text \<open>
  What the gateway's last step makes of a probability: it is printed in decimal, read back by
  serde\_json and narrowed to single precision. serde\_json's default parser promises best-effort
  precision only (the feature \<open>float_roundtrip\<close>, which would make it exact, is not enabled), so
  that a double may come back off by some units in the last place. A tolerance far above that,
  one part in \<open>2 ^ 30\<close>, is enough for what follows: a value of single precision comes back
  unchanged, and a probability is a number between 0 and 1 again.
\<close>

section \<open>Rounding of a value close to a code\<close>

text \<open>The distance from a code to the next bounds the rounding error between them.\<close>

lemma gap:
  obtains u where "mag_val F (Suc c) = mag_val F c + u" "2 powi qmin F \<le> u"
    "mag_val F (Suc c) \<le> 2 * 2 ^ fbits F * u"
    "\<And>v. mag_val F c < v \<Longrightarrow> v < mag_val F (Suc c) \<Longrightarrow> \<bar>mag_val F (round_code F v) - v\<bar> \<le> u / 2"
proof -
  obtain j m where c: "c = j * 2 ^ fbits F + m" "m < 2 * 2 ^ fbits F" "j = 0 \<or> 2 ^ fbits F \<le> m"
    by (rule code_cases)
  define u :: real where "u = 2 powi (qmin F + int j)"
  have 0: "mag_val F c = real m * u"
    unfolding c(1) u_def using c by (intro mag_val_code) auto
  have "mag_val F (j * 2 ^ fbits F + Suc m) = real (Suc m) * u"
    unfolding u_def using c by (intro mag_val_code) auto
  then have 1: "mag_val F (Suc c) = real (Suc m) * u" by (simp add: c(1))
  have "Suc m \<le> 2 * 2 ^ fbits F" using c(2) by simp
  then have "real (Suc m) \<le> real (2 * 2 ^ fbits F)" by (simp only: of_nat_le_iff)
  then have top: "mag_val F (Suc c) \<le> 2 * 2 ^ fbits F * u"
    unfolding 1 by (intro mult_right_mono) (simp_all add: u_def)
  have err: "\<bar>mag_val F (round_code F v) - v\<bar> \<le> u / 2"
    if v: "mag_val F c < v" "v < mag_val F (Suc c)" for v
  proof -
    have pos: "0 < v" using v(1) mag_val_nonneg [of F c] by linarith
    have "2 powi \<lfloor>log 2 v\<rfloor> \<le> v" using pos by (rule log2_floor_bounds)
    also have "v < 2 * 2 ^ fbits F * u" using v(2) top by linarith
    also have "\<dots> = 2 powi (qmin F + int j + int (fbits F) + 1)"
      by (simp add: u_def power_int_add)
    finally have "\<lfloor>log 2 v\<rfloor> < qmin F + int j + int (fbits F) + 1"
      using power_int_increasing [of "qmin F + int j + int (fbits F) + 1" "\<lfloor>log 2 v\<rfloor>" "2::real"]
      by (meson linorder_not_less one_le_numeral)
    then have "qexp F v \<le> qmin F + int j" by (simp add: qexp_def)
    then have "2 powi qexp F v \<le> u" unfolding u_def by (rule power_int_increasing) simp
    with round_error [OF pos, of F] show ?thesis by linarith
  qed
  have "2 powi qmin F \<le> u" unfolding u_def by (rule power_int_increasing) simp_all
  with 0 1 top err show thesis using that [of u] by (simp add: algebra_simps)
qed

lemma round_below:
  assumes "0 \<le> v" "v - mag_val F c < (mag_val F (Suc c) - mag_val F c) / 2"
  shows "round_code F v \<le> c"
proof (cases "v \<le> mag_val F c")
  case True
  with round_code_mono [OF assms(1), of "mag_val F c" F] show ?thesis by simp
next
  case False
  obtain u where u: "mag_val F (Suc c) = mag_val F c + u"
      "\<And>v. mag_val F c < v \<Longrightarrow> v < mag_val F (Suc c) \<Longrightarrow> \<bar>mag_val F (round_code F v) - v\<bar> \<le> u / 2"
    by (rule gap [of F c]) blast
  have "v < mag_val F c + u / 2" using assms(2) u(1) by simp
  moreover have "0 < u" using mag_val_Suc [of F c] u(1) by simp
  ultimately have "mag_val F (round_code F v) < mag_val F (Suc c)"
    using u(2) [of v] False u(1) by linarith
  then show ?thesis by simp
qed

lemma round_above:
  assumes "mag_val F (Suc c) - v < (mag_val F (Suc c) - mag_val F c) / 2"
  shows "Suc c \<le> round_code F v"
proof (cases "mag_val F (Suc c) \<le> v")
  case True
  have "0 \<le> mag_val F (Suc c)" by simp
  from round_code_mono [OF this True, of F] show ?thesis by simp
next
  case False
  obtain u where u: "mag_val F (Suc c) = mag_val F c + u"
      "\<And>v. mag_val F c < v \<Longrightarrow> v < mag_val F (Suc c) \<Longrightarrow> \<bar>mag_val F (round_code F v) - v\<bar> \<le> u / 2"
    by (rule gap [of F c]) blast
  have "mag_val F c + u / 2 < v" using assms u(1) by simp
  moreover have "0 < u" using mag_val_Suc [of F c] u(1) by simp
  ultimately have "mag_val F c < mag_val F (round_code F v)"
    using u(2) [of v] False u(1) by linarith
  then show ?thesis by simp
qed

definition tolerance :: "real \<Rightarrow> real" where
  "tolerance x = x / 2 ^ 30 + 2 powi (- 1000)"

lemma tolerance_gap:
  "tolerance (mag_val b32 c) < (mag_val b32 (Suc c) - mag_val b32 c) / 2"
  "tolerance (mag_val b32 (Suc c)) < (mag_val b32 (Suc c) - mag_val b32 c) / 2"
proof -
  define t :: real where "t = 2 powi (- 1000)"
  obtain u where u: "mag_val b32 (Suc c) = mag_val b32 c + u" "2 powi qmin b32 \<le> u"
      "mag_val b32 (Suc c) \<le> 2 * 2 ^ fbits b32 * u"
    by (rule gap [of b32 c]) blast
  have "t \<le> 2 powi (- 155)" unfolding t_def by (rule power_int_increasing) simp_all
  also have "\<dots> = 2 powi qmin b32 * 2 powi (- 6)"
    by (subst power_int_add [symmetric]) (simp_all add: fmt_simps)
  also have "\<dots> \<le> u * 2 powi (- 6)" using u(2) by (intro mult_right_mono) simp_all
  also have "(2::real) powi (- 6) = 1 / 64" by (simp add: power_int_minus)
  finally have t: "t \<le> u / 64" by simp
  have top: "mag_val b32 (Suc c) \<le> 2 ^ 24 * u" using u(3) by (simp add: fmt_simps)
  have "0 < u" using mag_val_Suc [of b32 c] u(1) by simp
  moreover have "mag_val b32 (Suc c) / 2 ^ 30 \<le> u / 64" using top by (simp add: field_simps)
  moreover have "mag_val b32 c / 2 ^ 30 \<le> mag_val b32 (Suc c) / 2 ^ 30"
    using mag_val_Suc [of b32 c] by (intro divide_right_mono) simp_all
  ultimately have "tolerance (mag_val b32 c) < u / 2 \<and> tolerance (mag_val b32 (Suc c)) < u / 2"
    unfolding tolerance_def t_def [symmetric] using t \<open>0 < u\<close> by linarith
  then show "tolerance (mag_val b32 c) < (mag_val b32 (Suc c) - mag_val b32 c) / 2"
    "tolerance (mag_val b32 (Suc c)) < (mag_val b32 (Suc c) - mag_val b32 c) / 2"
    using u(1) by simp_all
qed

lemma round_close:
  assumes "0 \<le> v" "\<bar>v - mag_val b32 c\<bar> \<le> tolerance (mag_val b32 c)"
  shows "round_code b32 v = c"
proof (rule antisym)
  show "round_code b32 v \<le> c"
    using assms tolerance_gap(1) [of c] by (intro round_below) linarith+
  show "c \<le> round_code b32 v"
  proof (cases c)
    case (Suc b)
    show ?thesis
      unfolding Suc using assms(2) tolerance_gap(2) [of b] by (intro round_above) (simp add: Suc)
  qed simp
qed

section \<open>Reading a double with best-effort precision\<close>

text \<open>The same sign, and a magnitude within the tolerance.\<close>

definition close_reading :: "f64 \<Rightarrow> f64 \<Rightarrow> bool" where
  "close_reading x y \<longleftrightarrow>
     (case (f64_cls x, f64_cls y) of
        (Fin s m q, Fin s' m' q') \<Rightarrow>
          s = s' \<and> \<bar>real m' * 2 powi q' - real m * 2 powi q\<bar> \<le> tolerance (real m * 2 powi q)
      | _ \<Rightarrow> False)"

locale accurate_codec = serde_codec +
  assumes rt_close: "finite_fp (f64_cls x) \<Longrightarrow> close_reading x (rt x)"

lemma close_reading_refl: "finite_fp (f64_cls x) \<Longrightarrow> close_reading x x"
  by (cases "f64_cls x") (simp_all add: close_reading_def tolerance_def)

interpretation ref_serde: accurate_codec ref_serde "\<lambda>x. x"
  by unfold_locales (rule close_reading_refl)

lemma close_readingE:
  assumes "close_reading (of_nat (pack b64 s c)) y" "c < inf_mag b64"
  obtains d where "y = of_nat (pack b64 s d)" "d < inf_mag b64"
    "\<bar>mag_val b64 d - mag_val b64 c\<bar> \<le> tolerance (mag_val b64 c)"
proof -
  obtain m q where x: "decode b64 (pack b64 s c) = Fin s m q" "real m * 2 powi q = mag_val b64 c"
    using assms(2) by (rule decode_pack)
  have fin: "finite_fp (f64_cls y)"
    using assms(1) by (auto simp: close_reading_def split: fp.splits)
  then have "f64_cls y \<noteq> NaN" by auto
  then obtain s' d where y: "y = of_nat (pack b64 s' d)" "d \<le> inf_mag b64" by (rule f64_cases)
  have d: "d < inf_mag b64" using fin by (simp add: y(1) f64_finite_pack)
  then obtain m' q' where y': "decode b64 (pack b64 s' d) = Fin s' m' q'" "real m' * 2 powi q' = mag_val b64 d"
    by (rule decode_pack [of d b64 s'])
  have "s' = s \<and> \<bar>mag_val b64 d - mag_val b64 c\<bar> \<le> tolerance (mag_val b64 c)"
    using assms(1) by (simp add: y(1) close_reading_def f64_cls_def unat_of_pack64 x y')
  with y(1) d that show thesis by blast
qed

text \<open>Only a finite value widens to a finite one.\<close>

lemma finite_widen_iff: "finite_fp (f64_cls (f64_of_f32 x)) \<longleftrightarrow> finite_fp (f32_cls x)"
proof (cases "f32_cls x")
  case NaN
  then have "f64_of_f32 x = of_nat (nan_code b64)" by (simp add: f64_of_f32_def conv_bits_def f32_cls_def)
  then have "f64_cls (f64_of_f32 x) = NaN"
    by (simp add: f64_cls_def decode_def Let_def nan_code_def fmt_simps)
  with NaN show ?thesis by simp
next
  case (Inf s)
  then have "f64_of_f32 x = of_nat (pack b64 s (inf_mag b64))"
    by (simp add: f64_of_f32_def conv_bits_def f32_cls_def)
  with Inf show ?thesis by (simp add: f64_finite_pack)
next
  case Fin
  then show ?thesis by (simp add: finite_widen)
qed

text \<open>A double that holds a value of single precision narrows back to it.\<close>

lemma narrow_close:
  assumes "finite_fp (f32_cls x)" "close_reading (f64_of_f32 x) y"
  shows "f32_of_f64 y = x"
proof -
  have "f32_cls x \<noteq> NaN" using assms(1) by auto
  then obtain s c where x: "x = of_nat (pack b32 s c)" "c \<le> inf_mag b32" by (rule f32_cases)
  have c: "c < inf_mag b32" using assms(1) by (simp add: x(1) f32_finite_pack)
  let ?b = "round_code b64 (mag_val b32 c)"
  note wide = widen_code [OF c]
  have "close_reading (of_nat (pack b64 s ?b)) y"
    using assms(2) c by (simp add: x(1) f64_of_f32_pack)
  from close_readingE [OF this wide(2)] obtain d where
    d: "y = of_nat (pack b64 s d)" "d < inf_mag b64"
      "\<bar>mag_val b64 d - mag_val b32 c\<bar> \<le> tolerance (mag_val b32 c)"
    by (metis wide(1))
  have "round_code b32 (mag_val b64 d) = c" by (rule round_close [OF _ d(3)]) simp
  with d show ?thesis by (simp add: x(1) f32_of_f64_def unat_of_pack64 conv_pack)
qed

definition in_unit32 :: "f32 \<Rightarrow> bool" where
  "in_unit32 x = (case f32_cls x of Fin s m q \<Rightarrow> \<not> s \<and> real m * 2 powi q \<le> 1 | _ \<Rightarrow> False)"

lemma in_unit_finite: "in_unit x \<Longrightarrow> finite_fp (f64_cls x)"
  by (auto simp: in_unit_def split: fp.splits)

lemma narrow_unit:
  assumes "in_unit x" "close_reading x y"
  shows "in_unit32 (f32_of_f64 y)"
proof -
  obtain c where x: "x = of_nat (pack b64 False c)" "c \<le> one_code b64"
    using assms(1) by (rule in_unitE)
  have c: "c < inf_mag b64" using x(2) one_code_finite by simp
  from close_readingE [OF assms(2) [unfolded x(1)] c] obtain d where
    d: "y = of_nat (pack b64 False d)" "d < inf_mag b64"
      "\<bar>mag_val b64 d - mag_val b64 c\<bar> \<le> tolerance (mag_val b64 c)" .
  let ?r = "round_code b32 (mag_val b64 d)"
  have "mag_val b64 c \<le> 1" using x(2) by (simp add: le_one_code)
  then have "mag_val b64 d \<le> 1 + tolerance 1" using d(3) by (simp add: tolerance_def)
  then have "?r \<le> round_code b32 (1 + tolerance 1)" by (intro round_code_mono) simp_all
  also have "\<dots> = one_code b32"
    by (rule round_close) (simp_all add: mag_val_one tolerance_def)
  finally have r: "?r \<le> one_code b32" .
  then have "?r < inf_mag b32" using one_code_finite by simp
  then obtain m q where "decode b32 (pack b32 False ?r) = Fin False m q" "real m * 2 powi q = mag_val b32 ?r"
    by (rule decode_pack [of ?r b32])
  with r show ?thesis
    by (simp add: d(1,2) in_unit32_def f32_of_f64_def f32_cls_def unat_of_pack64 unat_of_pack32 conv_pack le_one_code)
qed

end
