(* ===== verification/Deployment.thy ===== *)
theory Deployment
  imports Demo Reading
begin

text \<open>
  The gateway and its workers together, over interfaces only: a Redis server other processes use
  too, a transport that accepts the messages, and CPU workers that handle every message of the
  request within \<open>patience\<close> nanoseconds, in any order, any number of times, one or many at once.
  No notification need ever be delivered: the gateway can live off its own polling. A request is
  then answered, and the answer is the aggregation of what the workers compute for the slices.
\<close>

section \<open>The site\<close>

text \<open>What the gateway may do between the moment a message is out and the one it looks.\<close>

inductive moves :: "'s redis \<Rightarrow> 's runtime \<Rightarrow> 's \<Rightarrow> 's \<Rightarrow> bool" for R T s where
  start: "moves R T s s"
| get: "moves R T s s1 \<Longrightarrow> r_get R k s1 = (g, s2) \<Longrightarrow> moves R T s s2"
| table: "moves R T s s1 \<Longrightarrow> moves R T s (with_notifier T N s1)"
| wait: "moves R T s s1 \<Longrightarrow> moves R T s (wait_changed T rx d s1)"

definition published :: "'s runtime \<Rightarrow> 's \<Rightarrow> bytes set" where
  "published T s = (\<Union>i. set (queue (the_publisher T s) i))"

context gateway_runtime
begin

lemma moves_rely: "moves R T s s' \<Longrightarrow> rely (view s) (view s')"
proof (induction rule: moves.induct)
  case start
  show ?case by (rule rely_refl)
next
  case get
  then show ?case using get_law rely_trans by blast
next
  case table
  then show ?case by (simp add: with_view)
next
  case wait
  then show ?case using wait_rely rely_trans by blast
qed

end

text \<open>
  \<open>msgs\<close> are the messages the laws speak of. Redis answers, a read within \<open>latency\<close> nanoseconds;
  the queue accepts; and once \<open>patience\<close> nanoseconds have passed since a message was out, some
  worker has handled it, at a moment of its own, without an error from Redis.
\<close>

locale worker_site = clocked_runtime R view rely T
  for R :: "'s redis" and view :: "'s \<Rightarrow> keyspace" and rely :: "keyspace \<Rightarrow> keyspace \<Rightarrow> bool"
    and T :: "'s runtime" +
  fixes J :: serde and A :: "(f64, f32) arith" and msgs :: "bytes set"
    and latency :: nat and patience :: nat
  assumes get_up: "\<exists>v s'. r_get R k s = (Ok v, s')"
    and get_latency: "r_get R k s = (g, s') \<Longrightarrow> mono_now T s' \<le> mono_now T s + latency"
    and set_ex_up: "0 < ttl \<Longrightarrow> \<exists>s'. r_set_ex R k v ttl s = (Ok (), s')"
    and bus_up: "\<exists>p. publish (the_publisher T s) ''task_queue'' pl = (Ok (), p)"
    and bus_kept: "raw \<in> msgs \<Longrightarrow> raw \<in> set (queue p i) \<Longrightarrow> raw \<in> published T (with_publisher T p s)"
    and served: "raw \<in> msgs \<Longrightarrow> raw \<in> published T s \<Longrightarrow> task_ready J A None raw msg st \<Longrightarrow>
      moves R T s s' \<Longrightarrow> mono_now T s + patience \<le> mono_now T s' \<Longrightarrow>
      \<exists>t log_info r t'. rely (view s) (view t) \<and> handle_task R J A None log_info raw t = (r, t') \<and>
        r \<in> {Done, Panicked} \<and> rely (view t') (view s')"
begin

subsection \<open>Publishing\<close>

lemma publish_all_up:
  assumes "\<forall>m \<in> set ms. fst m = ''task_queue'' \<and> as_bytes (snd m) \<in> msgs"
  shows "\<exists>s'. publish_all (bus_publish T) ms s = (Ok (), s') \<and>
    (published T s \<inter> msgs) \<union> (\<lambda>m. as_bytes (snd m)) ` set ms \<subseteq> published T s'"
  using assms
proof (induction ms arbitrary: s)
  case (Cons m ms)
  obtain pl where m: "m = (''task_queue'', pl)" "as_bytes pl \<in> msgs" using Cons.prems by (cases m) auto
  obtain p where p: "publish (the_publisher T s) ''task_queue'' pl = (Ok (), p)" using bus_up by blast
  obtain i where i: "queue p = (queue (the_publisher T s))(i := queue (the_publisher T s) i @ [as_bytes pl])"
    using bus.pub_ok [OF p] by blast
  let ?s = "with_publisher T p s"
  have new: "as_bytes pl \<in> published T ?s" using m(2) by (rule bus_kept [of _ p i]) (simp add: i)
  have old: "raw \<in> published T ?s" if raw: "raw \<in> published T s" "raw \<in> msgs" for raw
  proof -
    obtain j where "raw \<in> set (queue (the_publisher T s) j)" using raw(1) by (auto simp: published_def)
    then have "raw \<in> set (queue p j)" by (auto simp: i)
    with raw(2) show ?thesis by (rule bus_kept)
  qed
  obtain s' where s': "publish_all (bus_publish T) ms ?s = (Ok (), s')"
      "(published T ?s \<inter> msgs) \<union> (\<lambda>m. as_bytes (snd m)) ` set ms \<subseteq> published T s'"
    using Cons.IH [of ?s] Cons.prems by auto
  have "publish_all (bus_publish T) (m # ms) s = (Ok (), s')"
    using s'(1) by (simp add: m(1) bus_publish_def p)
  moreover have "(published T s \<inter> msgs) \<union> (\<lambda>m. as_bytes (snd m)) ` set (m # ms) \<subseteq> published T s'"
    using s'(2) new old m by auto
  ultimately show ?case by blast
qed simp

subsection \<open>Waiting\<close>

lemma read_pass_moves:
  "moves R T s0 s \<Longrightarrow> read_pass R E J' job is c s = (c', s') \<Longrightarrow>
    moves R T s0 s' \<and> mono_now T s' \<le> mono_now T s + latency * length is"
proof (induction "is" arbitrary: c s)
  case (Cons i "is")
  obtain r s1 where r: "read_slice R E J' job i s = (r, s1)" by (cases "read_slice R E J' job i s")
  then obtain g where g: "r_get R (slice_key job i) s = (g, s1)"
    by (auto simp: read_slice_def get_bytes_def split: sum.splits option.splits prod.splits)
  have s1: "moves R T s0 s1" using Cons.prems(1) g by (rule moves.get)
  have "mono_now T s1 \<le> mono_now T s + latency" using g by (rule get_latency)
  moreover have "moves R T s0 s' \<and> (mono_now T s' \<le> mono_now T s1 + latency * length is \<or>
      mono_now T s' \<le> mono_now T s + latency * length is)"
    using Cons.IH [OF s1] Cons.IH [OF Cons.prems(1)] Cons.prems(2) r
    by (fastforce split: if_splits sum.splits option.splits)
  ultimately show ?case by auto
qed simp

text \<open>
  The slices of a job whose messages are out, as \<open>stats\<close> describes them. \<open>rely\<close> must leave the
  job's slice keys to its workers; it may do anything else.
\<close>

lemma slices_arrive:
  assumes keep: "stable rely (slices_of_job job n stats)"
    and stay: "\<forall>m m'. rely m m' \<longrightarrow> keeps_slices job m m'"
    and raw: "raw \<in> msgs" "raw \<in> published T s" "task_ready J A None raw msg p"
      "tm_job_id msg = job" "tm_slice_id msg = i" "i < n"
    and init: "slices_of_job job n stats (view s)"
    and later: "moves R T s s'" "mono_now T s + patience \<le> mono_now T s'"
  shows "view s' (slice_key job i) = Some (payload_bytes (stats i))"
proof -
  obtain t log_info r t' where t: "handle_task R J A None log_info raw t = (r, t')"
      "r \<in> {Done, Panicked}" "rely (view t') (view s')"
    using served [OF raw(1-3) later] by blast
  obtain q t1 where w: "write_result R job i (encode_partial p) t = (q, t1)"
    by (cases "write_result R job i (encode_partial p) t")
  with t(1,2) have "q = Ok ()" "t1 = t'"
    by (auto simp: handle_task_ready [OF raw(3)] raw(4,5) split: sum.splits)
  then have "rely ((view t)(slice_key job i \<mapsto> encode_partial p)) (view t')"
    using write_result_ok w by blast
  then have "view t' (slice_key job i) \<noteq> None"
    using stay by (fastforce simp: keeps_slices_def)
  then have "view s' (slice_key job i) \<noteq> None" using t(3) stay by (simp add: keeps_slices_def)
  moreover have "slices_of_job job n stats (view s')"
    using stableD [OF keep init] moves_rely [OF later(1)] .
  ultimately show ?thesis using raw(6) by (auto simp: slices_of_job_def)
qed

lemma job_collected:
  assumes keep: "stable rely (slices_of_job job n stats)"
    and stay: "\<forall>m m'. rely m m' \<longrightarrow> keeps_slices job m m'"
    and A: "A = ieee e e'" and small: "\<forall>i < n. payload_length (stats i) < 2 ^ 32"
    and out: "\<forall>i < n. \<exists>raw msg p. raw \<in> msgs \<and> raw \<in> published T s \<and> task_ready J A None raw msg p \<and>
      tm_job_id msg = job \<and> tm_slice_id msg = i"
    and init: "slices_of_job job n stats (view s)"
    and time: "patience + latency * n \<le> slice_timeout_ms env * 1000000"
  shows "\<exists>s'. wait_for_all_slices R LE J' T env job n s = Some (Ok (collected A stats n), s')"
proof -
  have dec: "decode_slice LE J' i (payload_bytes (stats i)) = Ok (Some (payload_stats A (stats i)))" if "i < n" for i
    using small that unfolding A by (intro decode_payload) blast
  have ready: "slices_ready LE J' job n m"
    if I: "slices_of_job job n stats m" and here: "\<forall>i < n. m (slice_key job i) \<noteq> None" for m
  proof -
    have "m (slice_key job i) = Some (payload_bytes (stats i))" if "i < n" for i
      using I here that by (auto simp: slices_of_job_def)
    moreover have "payload_bytes (stats i) \<noteq> []" for i
      by (cases "stats i") (simp_all add: encode_partial_def encode_normalized_def Let_def)
    ultimately show ?thesis using dec by (simp add: slices_ready_def)
  qed
  have I: "slices_of_job job n stats (view s')" if "moves R T s s'" for s'
    using stableD [OF keep init] moves_rely [OF that] .
  have "\<exists>xs s'. wait_for_all_slices R LE J' T env job n s = Some (Ok xs, s')"
  proof (rule wait_for_all_slices_finds [where W = "moves R T s" and slack = "latency * n"])
    fix s1 s2
    assume "moves R T s s1" "moves R T s s2" and r: "rely (view s1) (view s2)" and "slices_ready LE J' job n (view s1)"
    then have "\<forall>i < n. view s1 (slice_key job i) \<noteq> None" by (auto simp: slices_ready_def)
    then have "\<forall>i < n. view s2 (slice_key job i) \<noteq> None" using stay r by (simp add: keeps_slices_def)
    then show "slices_ready LE J' job n (view s2)" using I [OF \<open>moves R T s s2\<close>] by (intro ready)
  next
    fix s1 assume s1: "moves R T s s1" and late: "mono_now T (with_notifier T (snd (register_job job (the_notifier T s))) s)
        + slice_timeout_ms env * 1000000 \<le> mono_now T s1 + latency * n"
    let ?N = "snd (register_job job (the_notifier T s))"
    have "mono_now T s \<le> mono_now T (with_notifier T ?N s)" by (rule table_clock)
    with late time have "mono_now T s + patience \<le> mono_now T s1" by linarith
    then have "view s1 (slice_key job i) = Some (payload_bytes (stats i))" if "i < n" for i
      using slices_arrive [OF keep stay _ _ _ _ _ that init s1] out that by blast
    then show "slices_ready LE J' job n (view s1)" using I [OF s1] by (intro ready) auto
  next
    fix k s1 assume "moves R T s s1"
    then show "\<exists>v s'. r_get R k s1 = (Ok v, s') \<and> moves R T s s'" using get_up moves.get by metis
  next
    fix c s1 c' s' assume "moves R T s s1" "read_pass R LE J' job [0..<n] c s1 = (c', s')"
    from read_pass_moves [OF this] show "moves R T s s' \<and> mono_now T s' \<le> mono_now T s1 + latency * n" by simp
  qed (auto intro: moves.intros)
  then obtain xs s' where run: "wait_for_all_slices R LE J' T env job n s = Some (Ok xs, s')" by blast
  have "length xs = n \<and> (\<forall>i < n. xs ! i = payload_stats A (stats i))"
  proof (rule wait_for_all_slices_law(2) [where I = "slices_of_job job n stats" and P = "\<lambda>i x. x = payload_stats A (stats i)",
        OF _ _ init run refl])
    show "slices_of_job job n stats m'" if "slices_of_job job n stats m" "rely m m'" for m m'
      using stableD [OF keep] that .
    show "x = payload_stats A (stats i)" if "slices_of_job job n stats m" "m (slice_key job i) = Some b" "i < n"
      "decode_slice LE J' i b = Ok (Some x)" for m i b x
      using that dec by (auto simp: slices_of_job_def)
  qed
  then have "xs = collected A stats n" by (intro nth_equalityI) (simp_all add: collected_def)
  with run show ?thesis by blast
qed

subsection \<open>Storing\<close>

lemma set_ex_keeps:
  assumes "0 < ttl" "stable rely I" "\<And>m b. I m \<Longrightarrow> I (m(k \<mapsto> b))" "I (view s)"
  shows "\<exists>s'. set_ex R k v ttl s = (Ok (), s') \<and> I (view s')"
proof -
  obtain s' where s': "set_ex R k v ttl s = (Ok (), s')"
    using set_ex_up [OF assms(1)] unfolding set_ex_def by blast
  from set_ex_wrote [OF s'] obtain m where "wrote (Ok ()) (view s) k (as_bytes v) m" "rely m (view s')" by blast
  then have "I m" using assms(3,4) by (simp add: wrote_ok)
  with \<open>rely m (view s')\<close> s' show ?thesis using stableD [OF assms(2)] by blast
qed

lemma store_final_result_up:
  "ttls_positive env \<Longrightarrow> \<exists>s'. store_final_result R J' env now job t s = (Ok (), s')"
  using set_ex_up [of "result_ttl env" "result_key job" "as_bytes t" s]
    set_ex_up [of "progress_ttl env" "progress_key job"]
  by (fastforce simp: ttls_positive_def store_final_result_def update_progress_def set_ex_def Let_def)

end

section \<open>A request is served\<close>

definition request_messages :: "'s gateway \<Rightarrow> task_request \<Rightarrow> f64 list list \<Rightarrow> bytes set" where
  "request_messages G req slices =
     (\<lambda>m. as_bytes (snd m)) ` set (task_messages (g_serde G) False (tr_job_id req) (tr_task req) slices)"

text \<open>What a CPU worker stores for a slice, as it reads it from its message.\<close>

definition worker_payload :: "(f64, f32) arith \<Rightarrow> (f64 \<Rightarrow> f64) \<Rightarrow> f64 list \<Rightarrow> payload" where
  "worker_payload A fl xs = Partial (softmax_partial A (map fl xs))"

lemma request_messages_ready:
  assumes "serde_codec (g_serde G) fl" "utf8_string (tr_job_id req)" "tr_task req = ''softmax''"
    and "length slices < 2 ^ 32" "\<forall>xs \<in> set slices. xs \<noteq> [] \<and> list_all (\<lambda>x. finite_fp (f64_cls x)) xs"
  shows "\<forall>i < length slices. \<exists>raw msg p. raw \<in> request_messages G req slices \<and>
    task_ready (g_serde G) A None raw msg p \<and> tm_job_id msg = tr_job_id req \<and> tm_slice_id msg = i"
proof (intro allI impI)
  fix i assume i: "i < length slices"
  let ?J = "g_serde G" and ?job = "tr_job_id req"
  let ?raw = "as_bytes (to_text ?J (task_json ?job i ''softmax'' (slices ! i)))"
  have xs: "slices ! i \<noteq> []" "list_all (\<lambda>x. finite_fp (f64_cls x)) (slices ! i)" using assms(5) i by simp_all
  have "(i, slices ! i) \<in> set (zip [0..<length slices] slices)" using i by (force simp: in_set_zip)
  then have raw: "?raw \<in> request_messages G req slices"
    unfolding request_messages_def task_messages_def assms(3) by force
  have "utf8_string ''softmax''" "i < 2 ^ 64" using assms(4) i by (simp_all add: utf8_string_def)
  note parse = serde_codec.parse_task_text [OF assms(1,2) this xs(2)]
  have "task_ready ?J A None ?raw \<lparr>tm_job_id = ?job, tm_slice_id = i, tm_task = ''softmax'',
      tm_data = map fl (slices ! i)\<rparr> (softmax_partial A (map fl (slices ! i)))"
    using xs(1) by (simp add: task_ready_def parse compute_partial_def)
  with raw show "\<exists>raw msg p. raw \<in> request_messages G req slices \<and> task_ready ?J A None raw msg p \<and>
      tm_job_id msg = ?job \<and> tm_slice_id msg = i"
    by (intro exI conjI) auto
qed

lemma length_aggregate_cpu:
  "length (aggregate_softmax_cpu A stats) = (\<Sum>st\<leftarrow>stats. length (ss_exp_values st))"
proof (cases "stats = []")
  case False
  then show ?thesis
    by (simp add: aggregate_softmax_cpu_def Let_def length_concat zip_map2 zip_same_conv_map comp_def)
qed (simp add: aggregate_softmax_cpu_def)

text \<open>The slices of a finite vector.\<close>

lemma finite_slices:
  assumes "make_slices env False ws (map f64_of_f32 v) = Reply slices" "v \<noteq> []"
    and "list_all (\<lambda>x. finite_fp (f32_cls x)) v" "length v < 2 ^ 32"
  shows "concat slices = map f64_of_f32 v" "slices \<noteq> []" "length slices < 2 ^ 32"
    and "xs \<in> set slices \<Longrightarrow> xs \<noteq> [] \<and> list_all (\<lambda>x. finite_fp (f64_cls x)) xs \<and> length xs < 2 ^ 32"
proof -
  have part: "concat slices = map f64_of_f32 v" "\<And>xs. xs \<in> set slices \<Longrightarrow> xs \<noteq> []" "slices \<noteq> []"
    using make_slices_partition [of env False 1 "map f64_of_f32 v" slices] assms(1,2)
    by (auto simp: make_slices_def)
  then show "concat slices = map f64_of_f32 v" "slices \<noteq> []" by blast+
  have len: "length (concat slices) < 2 ^ 32" using assms(4) by (simp add: part(1))
  then show "length slices < 2 ^ 32" using length_le_concat [of slices] part(2) by fastforce
  assume xs: "xs \<in> set slices"
  have "set xs \<subseteq> set (map f64_of_f32 v)" using xs by (auto simp flip: part(1))
  then have "list_all (\<lambda>x. finite_fp (f64_cls x)) xs" using assms(3) finite_widen by (auto simp: list_all_iff)
  moreover have "length xs < 2 ^ 32" using length_concat_ge [OF xs] len by linarith
  ultimately show "xs \<noteq> [] \<and> list_all (\<lambda>x. finite_fp (f64_cls x)) xs \<and> length xs < 2 ^ 32"
    using part(2) [OF xs] by blast
qed

text \<open>Once every message is handled in time, the reply follows.\<close>

lemma served_reply:
  assumes site: "worker_site (g_redis G) view rely (g_runtime G) (g_serde G) (g_arith G)
      (request_messages G req slices) latency patience"
    and G: "g_arith G = ieee e e'" "g_endian G = LE" "g_gpu G = None" "\<not> g_nccl_dispatch G"
    and J: "serde_codec (g_serde G) fl" and ttl: "ttls_positive (g_env G)"
    and time: "patience + latency * length slices \<le> slice_timeout_ms (g_env G) * 1000000"
    and req: "tr_task req = ''softmax''" "tr_vector req \<noteq> []" "utf8_string (tr_job_id req)"
      "make_slices (g_env G) False (g_world_size G) (map f64_of_f32 (tr_vector req)) = Reply slices"
    and slices: "slices \<noteq> []" "length slices < 2 ^ 32"
      "\<forall>xs \<in> set slices. xs \<noteq> [] \<and> list_all (\<lambda>x. finite_fp (f64_cls x)) xs \<and> length xs < 2 ^ 32"
    and keep: "stable rely (slices_of_job (tr_job_id req) (length slices) stats)"
    and stay: "\<forall>m m'. rely m m' \<longrightarrow> keeps_slices (tr_job_id req) m m'"
    and init: "slices_of_job (tr_job_id req) (length slices) stats (view s)"
    and stats: "stats = (\<lambda>i. worker_payload (g_arith G) fl (slices ! i))"
    and vals: "vals = aggregate_softmax_cpu (g_arith G)
        (map (\<lambda>xs. slice_of_partial (g_arith G) (softmax_partial (g_arith G) (map fl xs))) slices)"
      "list_all (\<lambda>x. finite_fp (f64_cls x)) vals"
  shows "\<exists>s'. submit_task G req s =
    Some (Reply \<lparr>ts_message = ''OK'', ts_result = map (\<lambda>x. f32_of_f64 (fl x)) vals\<rparr>, s')"
proof -
  let ?R = "g_redis G" and ?T = "g_runtime G" and ?J = "g_serde G" and ?A = "g_arith G"
  let ?job = "tr_job_id req" and ?n = "length slices" and ?I = "slices_of_job (tr_job_id req) (length slices) stats"
  let ?ms = "task_messages ?J False ?job ''softmax'' slices"
  note rt = clocked_runtime.axioms(1) [OF worker_site.axioms(1) [OF site]]
  have A: "widen ?A = f64_of_f32" "narrow ?A = f32_of_f64" by (simp_all add: G(1) ieee_def)
  define meta where "meta = to_text ?J (metadata_to_json \<lparr>jm_job_id = ?job, jm_task_type = ''softmax'',
     jm_total_slices = ?n, jm_created_at = sys_secs ?T s, jm_status = ''submitted''\<rparr>)"
  have "0 < metadata_ttl (g_env G)" using ttl by (simp add: ttls_positive_def)
  moreover have "?I (m(metadata_key ?job \<mapsto> b))" if "?I m" for m b
    using that by (rule slices_of_job_upd) simp
  ultimately obtain s1 where
    s1: "set_ex ?R (metadata_key ?job) meta (metadata_ttl (g_env G)) s = (Ok (), s1)" and I1: "?I (view s1)"
    using worker_site.set_ex_keeps [OF site _ keep _ init] by blast
  have "\<forall>m \<in> set ?ms. fst m = ''task_queue'' \<and> as_bytes (snd m) \<in> request_messages G req slices"
    using req(1) by (auto simp: request_messages_def) (auto simp: task_messages_def slice_subject_def)
  from worker_site.publish_all_up [OF site this, of s1] obtain s2 where
    s2: "publish_all (bus_publish ?T) ?ms s1 = (Ok (), s2)" "request_messages G req slices \<subseteq> published ?T s2"
    using req(1) by (auto simp: request_messages_def)
  have I2: "?I (view s2)" using I1 stableD [OF keep] gateway_runtime.publish_all_rely [OF rt s2(1)] by blast
  have "\<forall>i < ?n. \<exists>raw msg p. raw \<in> request_messages G req slices \<and> raw \<in> published ?T s2 \<and>
      task_ready ?J ?A None raw msg p \<and> tm_job_id msg = ?job \<and> tm_slice_id msg = i"
    using request_messages_ready [OF J req(3,1) slices(2), where A = ?A] slices(3) s2(2) by blast
  moreover have "\<forall>i < ?n. payload_length (stats i) < 2 ^ 32"
    using slices(3) by (simp add: stats worker_payload_def softmax_partial_def Let_def)
  ultimately obtain s3 where s3: "wait_for_all_slices ?R LE ?J ?T (g_env G) ?job ?n s2 = Some (Ok (collected ?A stats ?n), s3)"
    using worker_site.job_collected [OF site keep stay G(1) _ _ I2 time] by blast
  have "collected ?A stats ?n = map (\<lambda>xs. slice_of_partial ?A (softmax_partial ?A (map fl xs))) slices"
    by (intro nth_equalityI) (simp_all add: collected_def stats worker_payload_def)
  then have agg: "aggregate_values ?A None (collected ?A stats ?n) = Ok vals"
    using slices(1) by (cases slices) (simp_all add: aggregate_values_def vals(1) slice_of_partial_def)
  obtain s4 where s4: "store_final_result ?R ?J (g_env G) (sys_secs ?T) ?job (to_text ?J (json_f64s vals)) s3 = (Ok (), s4)"
    using worker_site.store_final_result_up [OF site ttl] by blast
  have parse: "parse_floats ?J ?A (to_text ?J (json_f64s vals)) = Ok (map (\<lambda>x. f32_of_f64 (fl x)) vals)"
    using serde_codec.parse_floats_text [OF J, of ?A vals] vals(2) by (simp add: A)
  show ?thesis
    using req(1,2,4) G(4)
    by (simp add: submit_task_def Let_def A set_job_metadata_def s1 [unfolded meta_def] dispatch_task_def
        s2(1) aggregate_def G(2,3) s3 agg s4 parse)
qed

text \<open>
  C1: a valid request is answered, and with what. The vector is finite, Redis and the queue answer,
  CPU workers handle the request's messages within \<open>patience\<close>, which together with one pass over
  the keys fits into the timeout of the gateway; other processes may do anything to the store
  except touch the job's slice keys otherwise. Then \<open>SubmitTask\<close> returns one value per entry: the
  aggregation of the workers' statistics of all slices, in the order of the vector, read back from
  its JSON text and rounded to single precision; and every value returned is between 0 and 1.
\<close>

theorem deployment_serves:
  assumes site: "worker_site (g_redis G) view rely (g_runtime G) (g_serde G) (g_arith G)
      (request_messages G req slices) latency patience"
    and G: "g_arith G = ieee e e'" "g_endian G = LE" "g_gpu G = None" "\<not> g_nccl_dispatch G"
    and env: "exp_law e" "accurate_codec (g_serde G) fl" "ttls_positive (g_env G)"
      "patience + latency * length slices \<le> slice_timeout_ms (g_env G) * 1000000"
    and req: "tr_task req = ''softmax''" "tr_vector req \<noteq> []" "utf8_string (tr_job_id req)"
      "list_all (\<lambda>x. finite_fp (f32_cls x)) (tr_vector req)" "length (tr_vector req) < 2 ^ 32"
      "make_slices (g_env G) False (g_world_size G) (map f64_of_f32 (tr_vector req)) = Reply slices"
    and keep: "stable rely (slices_of_job (tr_job_id req) (length slices)
      (\<lambda>i. worker_payload (g_arith G) fl (slices ! i)))"
    and stay: "\<forall>m m'. rely m m' \<longrightarrow> keeps_slices (tr_job_id req) m m'"
    and init: "slices_of_job (tr_job_id req) (length slices)
      (\<lambda>i. worker_payload (g_arith G) fl (slices ! i)) (view s)"
  shows "\<exists>vals out s'. vals = aggregate_softmax_cpu (g_arith G)
      (map (\<lambda>xs. slice_of_partial (g_arith G) (softmax_partial (g_arith G) (map fl xs))) slices) \<and>
    out = map (\<lambda>x. f32_of_f64 (fl x)) vals \<and>
    submit_task G req s = Some (Reply \<lparr>ts_message = ''OK'', ts_result = out\<rparr>, s') \<and>
    length out = length (tr_vector req) \<and> list_all in_unit32 out"
proof -
  let ?A = "ieee e e'"
  define vals where "vals = aggregate_softmax_cpu ?A
    (map (\<lambda>xs. slice_of_partial ?A (softmax_partial ?A (map fl xs))) slices)"
  note J = accurate_codec.axioms(1) [OF env(2)]
  note slices = finite_slices [OF req(6,2,4,5)]
  have "list_all in_unit vals"
    unfolding vals_def using cpu_range [OF env(1), of "map (map fl) slices" e'] slices(4)
      serde_codec.rt_finite [OF J] by (force simp: comp_def list_all_iff)
  then have unit: "\<forall>x \<in> set vals. in_unit x" by (simp add: list_all_iff)
  then have "list_all in_unit32 (map (\<lambda>x. f32_of_f64 (fl x)) vals)"
    unfolding list_all_iff set_map using narrow_unit accurate_codec.rt_close [OF env(2)] in_unit_finite by blast
  moreover have "length vals = length (tr_vector req)"
  proof -
    have "length vals = (\<Sum>xs\<leftarrow>slices. length xs)"
      using slices(4) by (simp add: vals_def length_aggregate_cpu comp_def slice_of_partial_def softmax_partial_def Let_def
          cong: map_cong)
    also have "\<dots> = length (concat slices)" by (simp add: length_concat)
    finally show ?thesis by (simp add: slices(1))
  qed
  moreover obtain s' where "submit_task G req s =
      Some (Reply \<lparr>ts_message = ''OK'', ts_result = map (\<lambda>x. f32_of_f64 (fl x)) vals\<rparr>, s')"
    using served_reply [OF site G J env(3,4) req(1-3,6) slices(2,3) _ keep stay init refl, of vals]
      slices(4) unit in_unit_finite by (auto simp: vals_def G(1) list_all_iff)
  ultimately show ?thesis unfolding vals_def G(1) by (intro exI conjI) simp_all
qed

section \<open>A site\<close>

text \<open>
  A store, a clock, a table and a queue. When the gateway waits, CPU workers handle the messages of
  one request that are in the queue, in order; nothing else happens, and no notification arrives.
\<close>

record site =
  st_keys :: keyspace
  st_now :: nat
  st_table :: notifier
  st_sent :: "bytes list"

definition site_redis :: "site redis" where
  "site_redis =
     \<lparr>r_get = (\<lambda>k s. (Ok (st_keys s k), s)),
      r_set = (\<lambda>k v s. (Ok (), s\<lparr>st_keys := (st_keys s)(k \<mapsto> v)\<rparr>)),
      r_set_ex = (\<lambda>k v ttl s. if ttl = 0 then (Err ''ERR invalid expire time in setex command'', s)
        else (Ok (), s\<lparr>st_keys := (st_keys s)(k \<mapsto> v)\<rparr>)),
      r_exists = (\<lambda>k s. (Ok (st_keys s k \<noteq> None), s)),
      r_ttl = (\<lambda>k s. (Ok (if st_keys s k = None then - 2 else - 1), s)),
      r_keys = (\<lambda>pat s. (Err ''ERR unknown command'', s)),
      r_publish = (\<lambda>c v s. (Ok (), s))\<rparr>"

definition site_arith :: "(f64, f32) arith" where
  "site_arith = ieee step_exp id"

definition site_slices :: "f64 list list" where
  "site_slices = [[f64_of_f32 0x3F800000], [f64_of_f32 0]]"

definition site_payload :: "nat \<Rightarrow> payload" where
  "site_payload i = worker_payload site_arith (\<lambda>x. x) (site_slices ! i)"

definition site_raws :: "bytes set" where
  "site_raws = (\<lambda>m. as_bytes (snd m)) ` set (task_messages ref_serde False ''j'' ''softmax'' site_slices)"

definition site_work :: "site \<Rightarrow> site" where
  "site_work s = fold (\<lambda>raw s. snd (handle_task site_redis ref_serde site_arith None False raw s))
     (filter (\<lambda>raw. raw \<in> site_raws) (st_sent s)) s"

fun bus_contents :: "publisher \<Rightarrow> bytes list" where
  "bus_contents (ZmqPublisher c) = sent c"
| "bus_contents (ZmqMultiPublisher cs) = concat (map sent cs)"

definition site_runtime :: "site runtime" where
  "site_runtime =
     \<lparr>mono_now = st_now, sys_secs = (\<lambda>s. st_now s div 10 ^ 9),
      wait_changed = (\<lambda>rx d s. site_work (s\<lparr>st_now := st_now s + d\<rparr>)),
      the_notifier = st_table, with_notifier = (\<lambda>N s. s\<lparr>st_table := N\<rparr>),
      the_publisher = (\<lambda>s. ZmqPublisher (new_channel\<lparr>sent := st_sent s\<rparr>)),
      with_publisher = (\<lambda>p s. s\<lparr>st_sent := bus_contents p\<rparr>)\<rparr>"

definition site_rely :: "keyspace \<Rightarrow> keyspace \<Rightarrow> bool" where
  "site_rely m m' \<longleftrightarrow> (slices_of_job ''j'' 2 site_payload m \<longrightarrow> slices_of_job ''j'' 2 site_payload m') \<and>
     keeps_slices ''j'' m m'"

lemmas site_simps = site_redis_def site_runtime_def

interpretation site_store: redis_server site_redis st_keys site_rely
  by unfold_locales (auto simp: site_redis_def site_rely_def keeps_slices_def wrote_def split: if_splits)

text \<open>A message of the request is a slice of it.\<close>

lemma site_raw_ready:
  assumes "raw \<in> site_raws" "task_ready ref_serde site_arith None raw msg p"
  shows "tm_job_id msg = ''j''" "tm_slice_id msg < 2" "encode_partial p = payload_bytes (site_payload (tm_slice_id msg))"
proof -
  have "\<exists>i < 2. raw = as_bytes (to_text ref_serde (task_json ''j'' i ''softmax'' (site_slices ! i)))"
    using assms(1)
    by (auto simp: site_raws_def task_messages_def site_slices_def numeral_2_eq_2 Ex_less_Suc)
  then obtain i where i: "i < 2" "raw = as_bytes (to_text ref_serde (task_json ''j'' i ''softmax'' (site_slices ! i)))"
    by blast
  have "finite_fp (f32_cls 0x3F800000)" "finite_fp (f32_cls 0)"
    by (simp_all add: f32_cls_def decode_def Let_def fmt_simps)
  then have "list_all (\<lambda>x. finite_fp (f64_cls x)) (site_slices ! i)"
    using i(1) by (auto simp: site_slices_def less_Suc_eq numeral_2_eq_2 finite_widen)
  moreover have "utf8_string ''j''" "utf8_string ''softmax''" "i < 2 ^ 64" using i(1) by (simp_all add: utf8_string_def)
  ultimately have "parse_task ref_serde raw =
      Ok \<lparr>tm_job_id = ''j'', tm_slice_id = i, tm_task = ''softmax'', tm_data = site_slices ! i\<rparr>"
    using serde_codec.parse_task_text [OF ref_serde.serde_codec_axioms, of "''j''" "''softmax''" i] by (simp add: i(2))
  with assms(2) i(1) show "tm_job_id msg = ''j''" "tm_slice_id msg < 2"
    "encode_partial p = payload_bytes (site_payload (tm_slice_id msg))"
    by (auto simp: task_ready_def compute_partial_def site_payload_def worker_payload_def)
qed

text \<open>What handling one of them does.\<close>

lemma site_handle:
  assumes "raw \<in> site_raws" "handle_task site_redis ref_serde site_arith None False raw s = (r, s')"
  shows "(\<exists>i < 2. s' = s\<lparr>st_keys := (st_keys s)(slice_key ''j'' i \<mapsto> payload_bytes (site_payload i))\<rparr>) \<or> s' = s"
    and "task_ready ref_serde site_arith None raw msg p \<Longrightarrow> r = Done \<and>
      s' = s\<lparr>st_keys := (st_keys s)(slice_key ''j'' (tm_slice_id msg) \<mapsto> payload_bytes (site_payload (tm_slice_id msg)))\<rparr>"
proof -
  have stored: "r = Done \<and> s' = s\<lparr>st_keys := (st_keys s)(slice_key ''j'' (tm_slice_id msg) \<mapsto> payload_bytes (site_payload (tm_slice_id msg)))\<rparr>"
    if "task_ready ref_serde site_arith None raw msg p" for msg p
    using assms(2) site_raw_ready [OF assms(1) that]
    by (simp add: handle_task_ready [OF that] write_result_def worker_result_key_eq site_redis_def)
  then show "r = Done \<and> s' = s\<lparr>st_keys := (st_keys s)(slice_key ''j'' (tm_slice_id msg) \<mapsto> payload_bytes (site_payload (tm_slice_id msg)))\<rparr>"
    if "task_ready ref_serde site_arith None raw msg p" using that .
  show "(\<exists>i < 2. s' = s\<lparr>st_keys := (st_keys s)(slice_key ''j'' i \<mapsto> payload_bytes (site_payload i))\<rparr>) \<or> s' = s"
    using assms(2)
  proof (cases rule: handle_task_cases)
    case (ready msg p q)
    then show ?thesis using stored [OF ready(1)] site_raw_ready(2) [OF assms(1) ready(1)] by blast
  qed simp
qed

definition site_has :: "site \<Rightarrow> nat \<Rightarrow> bool" where
  "site_has s i \<longleftrightarrow> st_keys s (slice_key ''j'' i) = Some (payload_bytes (site_payload i))"

definition site_frame :: "site \<Rightarrow> site \<Rightarrow> bool" where
  "site_frame s s' \<longleftrightarrow> st_now s' = st_now s \<and> st_sent s' = st_sent s \<and>
     site_rely (st_keys s) (st_keys s') \<and> (\<forall>i. site_has s i \<longrightarrow> site_has s' i)"

lemma site_frame_trans: "site_frame s s' \<Longrightarrow> site_frame s' s'' \<Longrightarrow> site_frame s s''"
  using site_store.rely_trans by (auto simp: site_frame_def)

lemma site_frame_refl: "site_frame s s"
  by (simp add: site_frame_def site_store.rely_refl)

lemma site_frame_store:
  "site_frame s (s\<lparr>st_keys := (st_keys s)(slice_key ''j'' i \<mapsto> payload_bytes (site_payload i))\<rparr>)"
  by (auto simp: site_frame_def site_has_def site_rely_def keeps_slices_def intro!: slices_of_job_upd)

lemma site_fold_law:
  fixes s :: site
  defines "step \<equiv> \<lambda>raw s. snd (handle_task site_redis ref_serde site_arith None False raw s)"
  assumes "set raws \<subseteq> site_raws"
  shows "site_frame s (fold step raws s) \<and>
    (\<forall>raw \<in> set raws. \<forall>msg p. task_ready ref_serde site_arith None raw msg p \<longrightarrow>
      site_has (fold step raws s) (tm_slice_id msg))"
  using assms(2)
proof (induction raws arbitrary: s)
  case (Cons raw raws)
  obtain r s1 where run: "handle_task site_redis ref_serde site_arith None False raw s = (r, s1)"
    by (cases "handle_task site_redis ref_serde site_arith None False raw s")
  have raw: "raw \<in> site_raws" using Cons.prems by simp
  have frame: "site_frame s s1"
    using site_handle(1) [OF raw run] site_frame_store site_frame_refl by blast
  have has: "site_has s1 (tm_slice_id msg)" if "task_ready ref_serde site_arith None raw msg p" for msg p
    using site_handle(2) [OF raw run that] by (simp add: site_has_def)
  have IH: "site_frame s1 (fold step raws s1) \<and>
      (\<forall>raw \<in> set raws. \<forall>msg p. task_ready ref_serde site_arith None raw msg p \<longrightarrow>
        site_has (fold step raws s1) (tm_slice_id msg))"
    using Cons.prems by (intro Cons.IH) simp
  have "site_has (fold step raws s1) i" if "site_has s1 i" for i
    using IH that by (simp add: site_frame_def)
  moreover have "fold step (raw # raws) s = fold step raws s1" by (simp add: step_def run)
  ultimately show ?case using IH has site_frame_trans [OF frame] by auto
qed (simp add: site_frame_refl)

lemma site_work_law:
  "site_frame s (site_work s)"
  "raw \<in> site_raws \<Longrightarrow> raw \<in> set (st_sent s) \<Longrightarrow> task_ready ref_serde site_arith None raw msg p \<Longrightarrow>
    site_has (site_work s) (tm_slice_id msg)"
proof -
  note law = site_fold_law [of "filter (\<lambda>raw. raw \<in> site_raws) (st_sent s)" s, folded site_work_def]
  show "site_frame s (site_work s)" using law by auto
  show "raw \<in> site_raws \<Longrightarrow> raw \<in> set (st_sent s) \<Longrightarrow> task_ready ref_serde site_arith None raw msg p \<Longrightarrow>
    site_has (site_work s) (tm_slice_id msg)" using law by auto
qed

interpretation site_clock: clocked_runtime site_redis st_keys site_rely site_runtime
proof unfold_locales
  fix rx d and s :: site
  note law = site_work_law(1) [of "s\<lparr>st_now := st_now s + d\<rparr>"]
  show "site_rely (st_keys s) (st_keys (wait_changed site_runtime rx d s))"
    using law by (simp add: site_runtime_def site_frame_def)
  show "0 < d \<Longrightarrow> mono_now site_runtime s < mono_now site_runtime (wait_changed site_runtime rx d s)"
    using law by (simp add: site_runtime_def site_frame_def)
qed (auto simp: site_simps site_store.rely_refl)

text \<open>When time has passed, the messages that were out have been handled.\<close>

lemma site_moves:
  assumes "moves site_redis site_runtime s s'"
  shows "st_sent s' = st_sent s \<and> st_now s \<le> st_now s' \<and>
    (st_now s < st_now s' \<longrightarrow> (\<forall>raw \<in> site_raws \<inter> set (st_sent s). \<forall>msg p.
      task_ready ref_serde site_arith None raw msg p \<longrightarrow> site_has s' (tm_slice_id msg)))"
  using assms
proof (induction rule: moves.induct)
  case (wait s1 rx d)
  let ?s = "s1\<lparr>st_now := st_now s1 + d\<rparr>"
  note law = site_work_law(1) [of ?s] site_work_law(2) [of _ ?s]
  show ?case using wait.IH law by (auto simp: site_runtime_def site_frame_def)
qed (auto simp: site_simps site_has_def)

interpretation site: worker_site site_redis st_keys site_rely site_runtime ref_serde site_arith site_raws 0 1
proof unfold_locales
  fix raw p i and s :: site
  show "raw \<in> set (queue p i) \<Longrightarrow> raw \<in> published site_runtime (with_publisher site_runtime p s)"
    by (cases p) (auto simp: site_runtime_def published_def intro!: exI [of _ 0] split: if_splits)
next
  fix raw msg st and s s' :: site
  assume raw: "raw \<in> site_raws" "raw \<in> published site_runtime s" and ready: "task_ready ref_serde site_arith None raw msg st"
    and m: "moves site_redis site_runtime s s'" and late: "mono_now site_runtime s + 1 \<le> mono_now site_runtime s'"
  have "raw \<in> set (st_sent s)" using raw(2) by (auto simp: published_def site_runtime_def split: if_splits)
  then have has: "site_has s' (tm_slice_id msg)"
    using site_moves [OF m] raw(1) ready late by (auto simp: site_runtime_def)
  obtain r t' where run: "handle_task site_redis ref_serde site_arith None False raw s' = (r, t')"
    by (cases "handle_task site_redis ref_serde site_arith None False raw s'")
  have "r = Done \<and> st_keys t' = st_keys s'"
    using site_handle(2) [OF raw(1) run ready] has by (auto simp: site_has_def fun_upd_idem)
  with run show "\<exists>t log_info r t'. site_rely (st_keys s) (st_keys t) \<and>
      handle_task site_redis ref_serde site_arith None log_info raw t = (r, t') \<and> r \<in> {Done, Panicked} \<and>
      site_rely (st_keys t') (st_keys s')"
    using site_clock.moves_rely [OF m] site_store.rely_refl by (metis insertI1)
qed (auto simp: site_simps zmq_publish_def channel_send_def new_channel_def)

definition site_gateway :: "site gateway" where
  "site_gateway =
     \<lparr>g_redis = site_redis, g_serde = ref_serde, g_endian = LE, g_arith = site_arith,
      g_runtime = site_runtime, g_env = (\<lambda>_. None), g_gpu = None, g_nccl_dispatch = False, g_world_size = 4\<rparr>"

definition site_request :: task_request where
  "site_request = \<lparr>tr_job_id = ''j'', tr_task = ''softmax'', tr_vector = [0x3F800000, 0]\<rparr>"

definition site_start :: site where
  "site_start = \<lparr>st_keys = (\<lambda>_. None), st_now = 0, st_table = notifier_new, st_sent = []\<rparr>"

lemma site_slices_made:
  "make_slices (g_env site_gateway) False (g_world_size site_gateway)
      (map f64_of_f32 (tr_vector site_request)) = Reply site_slices"
proof -
  have "slice_size (\<lambda>_. None) (Suc (Suc 0)) = 1" by (simp add: slice_size_def num_slices_def env_uint_def)
  then show ?thesis
    by (simp add: site_gateway_def site_request_def site_slices_def make_slices_def chunks_step)
qed

lemma deployment_serves_witness:
  "\<exists>vals out s'. vals = aggregate_softmax_cpu (g_arith site_gateway)
      (map (\<lambda>xs. slice_of_partial (g_arith site_gateway) (softmax_partial (g_arith site_gateway) (map (\<lambda>x. x) xs))) site_slices) \<and>
    out = map (\<lambda>x. f32_of_f64 x) vals \<and>
    submit_task site_gateway site_request site_start = Some (Reply \<lparr>ts_message = ''OK'', ts_result = out\<rparr>, s') \<and>
    length out = length (tr_vector site_request) \<and> list_all in_unit32 out"
proof (rule deployment_serves [where e = step_exp and e' = id and latency = 0 and patience = 1])
  have "request_messages site_gateway site_request site_slices = site_raws"
    by (simp add: request_messages_def site_raws_def site_gateway_def site_request_def)
  then show "worker_site (g_redis site_gateway) st_keys site_rely (g_runtime site_gateway) (g_serde site_gateway)
      (g_arith site_gateway) (request_messages site_gateway site_request site_slices) 0 1"
    using site.worker_site_axioms by (simp add: site_gateway_def)
  show "accurate_codec (g_serde site_gateway) (\<lambda>x. x)"
    using ref_serde.accurate_codec_axioms by (simp add: site_gateway_def)
  show "make_slices (g_env site_gateway) False (g_world_size site_gateway)
      (map f64_of_f32 (tr_vector site_request)) = Reply site_slices"
    by (rule site_slices_made)
  show "ttls_positive (g_env site_gateway)" using demo_ttls by (simp add: site_gateway_def)
  show "list_all (\<lambda>x. finite_fp (f32_cls x)) (tr_vector site_request)"
    by (simp add: site_request_def f32_cls_def decode_def Let_def fmt_simps)
  have "(\<lambda>i. worker_payload (g_arith site_gateway) (\<lambda>x. x) (site_slices ! i)) = site_payload"
    by (simp add: site_gateway_def site_payload_def fun_eq_iff)
  moreover have "length site_slices = 2" by (simp add: site_slices_def)
  ultimately show "stable site_rely (slices_of_job (tr_job_id site_request) (length site_slices)
      (\<lambda>i. worker_payload (g_arith site_gateway) (\<lambda>x. x) (site_slices ! i)))"
    by (auto simp: stable_def site_rely_def site_request_def)
qed (auto simp: site_gateway_def site_request_def site_arith_def step_exp_law utf8_string_def slice_timeout_ms_def
    env_uint_def site_rely_def slices_of_job_def site_start_def)

end
