(* ===== verification/Gateway_Spec.thy ===== *)
theory Gateway_Spec
  imports Demo
begin

text \<open>
  What a client of the gateway can rely on: that a request comes to an end, what becomes of one
  that cannot be served, and how \<open>GetResult\<close> answers.
\<close>

section \<open>Waiting comes to an end\<close>

text \<open>
  C8: waiting for slices always ends, whatever other processes do to the store and however often
  the notifier wakes the request: every pass either finds the last slice or moves the clock on.
  Afterwards the job is not registered any more; and the wait fails only with the timeout, after
  the full \<open>SLICE_TIMEOUT_MS\<close>.
\<close>

theorem wait_ends:
  assumes "clocked_runtime R view rely T"
  shows "\<exists>r s'. wait_for_all_slices R E J T env job n s = Some (r, s') \<and>
    jobs (the_notifier T s') job = None \<and>
    (\<forall>e. r = Err e \<longrightarrow> e = ''Timeout waiting for slices for job '' @ job \<and>
      mono_now T s + slice_timeout_ms env * 1000000 \<le> mono_now T s')"
proof -
  note gw = clocked_runtime.axioms(1) [OF assms]
  obtain r s' where run: "wait_for_all_slices R E J T env job n s = Some (r, s')"
    using clocked_runtime.wait_for_all_slices_returns [OF assms, of E J env job n s] by auto
  moreover have "jobs (the_notifier T s') job = None"
    using gateway_runtime.wait_for_all_slices_law(3)
      [OF gw, where I = "\<lambda>_. True" and P = "\<lambda>_ _. True", OF _ _ _ run] by blast
  moreover have "e = timeout_error job \<and> mono_now T s + slice_timeout_ms env * 1000000 \<le> mono_now T s'"
    if "r = Err e" for e
  proof -
    note run = run [unfolded that]
    show ?thesis
      using wait_for_all_slices_error [OF run] clocked_runtime.wait_for_all_slices_late [OF assms run] by simp
  qed
  ultimately show ?thesis by (auto simp: timeout_error_def)
qed

text \<open>On the store that other processes use, for one that drops the slice and one that is idle.\<close>

lemma wait_ends_witness:
  "\<exists>r w'. wait_for_all_slices (ref_redis others) LE ref_serde (ref_runtime others) (\<lambda>_. None) ''j'' 1
      (demo_world\<lparr>w_others := [Drop (slice_key ''j'' 0), Tick 1]\<rparr>) = Some (r, w') \<and>
    jobs (the_notifier (ref_runtime others) w') ''j'' = None \<and>
    (\<forall>e. r = Err e \<longrightarrow> e = ''Timeout waiting for slices for job '' @ ''j'' \<and>
      mono_now (ref_runtime others) (demo_world\<lparr>w_others := [Drop (slice_key ''j'' 0), Tick 1]\<rparr>)
        + slice_timeout_ms (\<lambda>_. None) * 1000000 \<le> mono_now (ref_runtime others) w')"
  by (rule wait_ends [OF shared.clocked_runtime_axioms])

text \<open>
  C17: as long as nothing readable is stored for one of the slices (no worker took it, its data
  were rejected, its result is truncated), the aggregation fails with the timeout, after the full
  time, however many of the other slices are there.
\<close>

theorem missing_slice_times_out:
  assumes "clocked_runtime R view rely T" "i < n"
    and "stable rely (\<lambda>m. \<forall>b x. m (slice_key job i) = Some b \<longrightarrow> b = [] \<or> decode_slice E J i b \<noteq> Ok (Some x))"
    and "\<forall>b x. view s (slice_key job i) = Some b \<longrightarrow> b = [] \<or> decode_slice E J i b \<noteq> Ok (Some x)"
  shows "\<exists>s'. aggregate R E J A T env gpu job n s = Some (Err (timeout_error job), s') \<and>
    mono_now T s + slice_timeout_ms env * 1000000 \<le> mono_now T s'"
proof -
  let ?I = "\<lambda>m. \<forall>b x. m (slice_key job i) = Some b \<longrightarrow> b = [] \<or> decode_slice E J i b \<noteq> Ok (Some x)"
  have "\<exists>s'. wait_for_all_slices R E J T env job n s = Some (Err (timeout_error job), s')"
  proof (rule clocked_runtime.wait_for_all_slices_missing [OF assms(1), where I = ?I, OF _ _ assms(4,2)])
    show "?I m'" if "?I m" "rely m m'" for m m' using stableD [OF assms(3)] that by blast
  qed blast
  then obtain s' where run: "wait_for_all_slices R E J T env job n s = Some (Err (timeout_error job), s')"
    by blast
  with clocked_runtime.wait_for_all_slices_late [OF assms(1) run] show ?thesis
    by (simp add: aggregate_def)
qed

lemma missing_slice_times_out_witness:
  "\<exists>w'. aggregate quiet_redis LE ref_serde (ieee id id) quiet_runtime (\<lambda>_. None) None ''j'' 2 demo_world =
      Some (Err (timeout_error ''j''), w') \<and>
    mono_now quiet_runtime demo_world + slice_timeout_ms (\<lambda>_. None) * 1000000 \<le> mono_now quiet_runtime w'"
  by (rule missing_slice_times_out [OF quiet.clocked_runtime_axioms, where i = 1])
    (simp_all add: stable_def demo_live)

section \<open>Requests that are refused\<close>

lemma dispatch_task_status:
  "dispatch_task G job task slices s = Some (Status c msg, s') \<Longrightarrow> c = Internal"
  by (auto simp: dispatch_task_def split: prod.splits sum.splits option.splits)

lemma make_slices_status:
  "make_slices env nccl ws vector = Status c msg \<longleftrightarrow>
    nccl \<and> length vector < ws \<and> c = InvalidArgument \<and>
    msg = ''vector length '' @ dec (length vector) @ '' < world_size '' @
      dec ws @ '': cannot give every GPU rank a non-empty slice in NCCL mode''"
  by (auto simp: make_slices_def)

definition invalid_request :: "'s gateway \<Rightarrow> task_request \<Rightarrow> bool" where
  "invalid_request G req \<longleftrightarrow>
     tr_task req \<noteq> ''softmax'' \<or> tr_vector req = [] \<or>
     g_nccl_dispatch G \<and> length (tr_vector req) < g_world_size G"

text \<open>
  C13: \<open>SubmitTask\<close> refuses a request as invalid exactly when it asks for another task, sends an
  empty vector, or sends one too short to give every rank of the NCCL mode an entry; and then it
  has touched neither the store nor a queue.
\<close>

theorem rejected_untouched:
  "(\<exists>msg. submit_task G req s = Some (Status InvalidArgument msg, s')) \<longleftrightarrow>
    s' = s \<and> invalid_request G req"
proof (cases "tr_task req \<noteq> ''softmax'' \<or> tr_vector req = []")
  case True
  then show ?thesis by (auto simp: invalid_request_def submit_task_def Let_def)
next
  case False
  let ?v = "map (widen (g_arith G)) (tr_vector req)"
  show ?thesis
  proof (cases "make_slices (g_env G) (g_nccl_dispatch G) (g_world_size G) ?v")
    case (Reply slices)
    then have "\<not> (g_nccl_dispatch G \<and> length (tr_vector req) < g_world_size G)"
      by (auto simp: make_slices_def)
    with False Reply show ?thesis
      by (auto simp: invalid_request_def submit_task_def Let_def split: prod.splits sum.splits dest: dispatch_task_status)
  next
    case (Status c msg)
    note S = Status [unfolded make_slices_status]
    with False Status show ?thesis by (auto simp: invalid_request_def submit_task_def Let_def)
  next
    case (Panic msg)
    then have "\<not> (g_nccl_dispatch G \<and> length (tr_vector req) < g_world_size G)"
      by (auto simp: make_slices_def)
    with False Panic show ?thesis by (auto simp: invalid_request_def submit_task_def Let_def)
  qed
qed

section \<open>Expiry times of zero\<close>

context redis_server
begin

lemma store_final_result_zero_ttl:
  assumes "result_ttl env = 0 \<or> progress_ttl env = 0"
  shows "store_final_result R J env now job t s \<noteq> (Ok u, s')"
proof
  assume run: "store_final_result R J env now job t s = (Ok u, s')"
  then obtain v s1 where 1: "set_ex R (result_key job) t (result_ttl env) s = (Ok v, s1)"
    by (auto simp: store_final_result_def split: prod.splits sum.splits)
  with run have 2: "update_progress R J env now job ''completed'' s1 = (Ok u, s')"
    by (simp add: store_final_result_def)
  show False
    using assms set_ex_zero_ttl [of "result_key job" t s "Ok v" s1] 1 2
      set_ex_zero_ttl [of "progress_key job" _ s1 "Ok u" s']
    by (auto simp: update_progress_def Let_def)
qed

end

text \<open>
  C31: an expiry time of zero (a \<open>REDIS_TTL_*_HOURS\<close> of 0, or one whose seconds wrap to zero)
  makes the server refuse the write, so that no request is ever answered, although all its slices
  are computed.
\<close>

theorem zero_ttl_never_replies:
  assumes "redis_server (g_redis G) view rely"
    and "result_ttl (g_env G) = 0 \<or> metadata_ttl (g_env G) = 0 \<or> progress_ttl (g_env G) = 0"
  shows "submit_task G req s \<noteq> Some (Reply resp, s')"
proof
  assume run: "submit_task G req s = Some (Reply resp, s')"
  then obtain slices meta v s1 where
    meta: "set_job_metadata (g_redis G) (g_serde G) (g_env G) (tr_job_id req) meta s = (Ok v, s1)"
    and disp: "dispatch_task G (tr_job_id req) (tr_task req) slices s1 = Some (Reply resp, s')"
    by (auto simp: submit_task_def Let_def split: if_splits rpc.splits sum.splits prod.splits)
  have "metadata_ttl (g_env G) \<noteq> 0"
    using meta redis_server.set_ex_zero_ttl [OF assms(1)] by (fastforce simp: set_job_metadata_def Let_def)
  with assms(2) have "result_ttl (g_env G) = 0 \<or> progress_ttl (g_env G) = 0" by simp
  note never = redis_server.store_final_result_zero_ttl [OF assms(1) this]
  from disp show False
    by (auto simp: dispatch_task_def aggregate_def Let_def never
        split: sum.splits prod.splits option.splits)
qed

lemma zero_ttl_never_replies_witness:
  "\<forall>resp w'. submit_task (demo_gateway\<lparr>g_env := [''REDIS_TTL_HOURS'' \<mapsto> dec 0]\<rparr>) demo_request demo_world \<noteq>
    Some (Reply resp, w')"
  by (intro allI zero_ttl_never_replies [where view = live and rely = "(=)"])
    (use quiet.redis_server_axioms in
      \<open>simp_all add: demo_gateway_def result_ttl_def ttl_hours_def env_uint_def\<close>)

section \<open>Metadata\<close>

definition metadata_ok :: "job_metadata \<Rightarrow> bool" where
  "metadata_ok m \<longleftrightarrow> utf8_string (jm_job_id m) \<and> utf8_string (jm_task_type m) \<and>
     jm_total_slices m < 2 ^ 64 \<and> jm_created_at m < 2 ^ 64 \<and> utf8_string (jm_status m)"

context serde_codec
begin

lemma metadata_utf8: "metadata_ok m \<Longrightarrow> utf8_string (to_text J (metadata_to_json m))"
  by (rule text_utf8) (simp add: metadata_to_json_def metadata_ok_def, simp add: utf8_string_def)

lemma metadata_text:
  assumes "metadata_ok m"
  shows "from_utf8 (as_bytes (to_text J (metadata_to_json m))) = Ok (to_text J (metadata_to_json m))"
    and "from_text J (to_text J (metadata_to_json m)) = Ok (metadata_to_json m)"
    and "metadata_of_json (metadata_to_json m) = Ok m"
proof -
  have keys: "list_all utf8_string [''job_id'', ''task_type'', ''total_slices'', ''created_at'', ''status'']"
    by (simp add: utf8_string_def)
  have ok: "json_ok (metadata_to_json m)"
    using assms keys by (simp add: metadata_to_json_def metadata_ok_def)
  show "from_utf8 (as_bytes (to_text J (metadata_to_json m))) = Ok (to_text J (metadata_to_json m))"
    by (rule utf8_text [OF ok])
  have "json_map rt (metadata_to_json m) = metadata_to_json m" by (simp add: metadata_to_json_def)
  with roundtrip [OF ok]
  show "from_text J (to_text J (metadata_to_json m)) = Ok (metadata_to_json m)" by simp
  show "metadata_of_json (metadata_to_json m) = Ok m"
    by (simp add: metadata_to_json_def de_field_def)
qed

end

text \<open>
  C30: the metadata of a job come back as they were stored: if nobody else writes to the job's
  metadata key, what \<open>get_job_metadata\<close> returns after a successful \<open>set_job_metadata\<close>, unless
  the read itself fails, is the same record.
\<close>

theorem metadata_roundtrip:
  assumes "redis_server R view rely" "serde_codec J fl" "metadata_ok m"
    and "\<forall>k v. rely k v \<longrightarrow> v (metadata_key job) = k (metadata_key job)"
    and "set_job_metadata R J env job m s = (Ok u, s')"
    and "get_job_metadata R J job s' = (Ok r, s'')"
  shows "r = Some m"
proof -
  let ?t = "to_text J (metadata_to_json m)"
  obtain k where k: "wrote (Ok u) (view s) (metadata_key job) (as_bytes ?t) k" "rely k (view s')"
    using redis_server.set_ex_wrote [OF assms(1)] assms(5) by (fastforce simp: set_job_metadata_def Let_def)
  have "view s' (metadata_key job) = k (metadata_key job)" using assms(4) k(2) by blast
  then have stored: "view s' (metadata_key job) = Some (as_bytes ?t)" using k(1) by (simp add: wrote_def)
  obtain g s2 where g: "get_str R (metadata_key job) s' = (g, s2)" by (cases "get_str R (metadata_key job) s'")
  with assms(6) obtain t where t: "g = Ok t" by (cases g) (auto simp: get_job_metadata_def)
  note law = redis_server.get_str_law [OF assms(1) g]
  note parse = serde_codec.metadata_text [OF assms(2,3)]
  show ?thesis
  proof (cases t)
    case None
    with law(2) t stored show ?thesis by simp
  next
    case (Some t')
    with law(3) [of t'] t stored parse(1) have "t' = ?t" by auto
    with assms(6) g t Some parse(2,3) show ?thesis by (simp add: get_job_metadata_def)
  qed
qed

definition demo_metadata :: job_metadata where
  "demo_metadata = \<lparr>jm_job_id = ''j'', jm_task_type = ''softmax'', jm_total_slices = 1,
     jm_created_at = 0, jm_status = ''submitted''\<rparr>"

lemma demo_metadata_ok: "metadata_ok demo_metadata"
  by (simp add: metadata_ok_def demo_metadata_def utf8_string_def)

lemma metadata_roundtrip_witness:
  "\<exists>w r w'. set_job_metadata quiet_redis ref_serde (\<lambda>_. None) ''j'' demo_metadata demo_world = (Ok (), w) \<and>
    get_job_metadata quiet_redis ref_serde ''j'' w = (Ok r, w') \<and> r = Some demo_metadata"
proof -
  let ?t = "to_text ref_serde (metadata_to_json demo_metadata)"
  have "0 < metadata_ttl (\<lambda>_. None)" using demo_ttls by (simp add: ttls_positive_def)
  from quiet_set_ex [OF this, of "metadata_key ''j''" ?t demo_world] obtain w where
    w: "set_job_metadata quiet_redis ref_serde (\<lambda>_. None) ''j'' demo_metadata demo_world = (Ok (), w)"
      "live w (metadata_key ''j'') = Some (as_bytes ?t)"
    by (auto simp: set_job_metadata_def Let_def)
  note parse = serde_codec.metadata_text [OF ref_serde.serde_codec_axioms demo_metadata_ok]
  have get: "get_job_metadata quiet_redis ref_serde ''j'' w = (Ok (Some demo_metadata), w)"
    using w(2) parse by (simp add: get_job_metadata_def get_str_def quiet_get)
  have "Some demo_metadata = Some demo_metadata"
    by (rule metadata_roundtrip [OF quiet.redis_server_axioms ref_serde.serde_codec_axioms demo_metadata_ok _ w(1) get])
      simp
  with w(1) get show ?thesis by blast
qed

section \<open>GetResult\<close>

lemma quiet_count_slices:
  "count_slices quiet_redis job is c w =
    (c + length (filter (\<lambda>i. live w (slice_key job i) \<noteq> None) is), w)"
  by (induction "is" arbitrary: c) (simp_all add: key_exists_def ref_redis_def)

lemma quiet_get_str:
  "get_str quiet_redis k w =
    (case live w k of None \<Rightarrow> Ok None
     | Some b \<Rightarrow> (case from_utf8 b of Err e \<Rightarrow> Err e | Ok t \<Rightarrow> Ok (Some t)), w)"
  by (simp add: get_str_def quiet_get split: option.splits)

lemma quiet_ttl_of: "\<exists>t. ttl_of quiet_redis k w = (t, w)"
  by (auto simp: ttl_of_def ref_redis_def split: sum.splits prod.splits)

text \<open>
  What is known of a job, as a client sees it: nothing, the final values, or how many slices are
  there out of how many.
\<close>

datatype job_view = Unknown | Final nat "f64 list" | InProgress nat nat

definition job_view_of :: "serde \<Rightarrow> string \<Rightarrow> job_view \<Rightarrow> keyspace \<Rightarrow> bool" where
  "job_view_of J job v m \<longleftrightarrow>
     (case v of
        Unknown \<Rightarrow> m (metadata_key job) = None
      | Final n vals \<Rightarrow>
          (\<exists>md. metadata_ok md \<and> jm_total_slices md = n \<and>
            m (metadata_key job) = Some (as_bytes (to_text J (metadata_to_json md)))) \<and>
          m (result_key job) = Some (as_bytes (to_text J (json_f64s vals))) \<and>
          list_all (\<lambda>x. finite_fp (f64_cls x)) vals
      | InProgress n k \<Rightarrow>
          (\<exists>md. metadata_ok md \<and> jm_total_slices md = n \<and>
            m (metadata_key job) = Some (as_bytes (to_text J (metadata_to_json md)))) \<and>
          m (result_key job) = None \<and> k = card {i. i < n \<and> m (slice_key job i) \<noteq> None})"

lemma reads_up_ref [simp]: "reads_up (ref_redis step)"
  by (simp add: reads_up_def ref_redis_def)

context redis_server
begin

lemma get_str_up:
  assumes "reads_up R" "view s k = Some (as_bytes t)" "utf8_string t"
  shows "\<exists>s'. get_str R k s = (Ok (Some t), s') \<and> rely (view s) (view s')"
proof -
  obtain v s' where g: "r_get R k s = (Ok v, s')" using assms(1) unfolding reads_up_def by blast
  with get_law [OF g] assms(2,3) show ?thesis
    by (auto simp: get_str_def utf8_string_def from_utf8_as_bytes)
qed

lemma get_str_up_none:
  assumes "reads_up R" "view s k = None"
  shows "\<exists>s'. get_str R k s = (Ok None, s') \<and> rely (view s) (view s')"
proof -
  obtain v s' where g: "r_get R k s = (Ok v, s')" using assms(1) unfolding reads_up_def by blast
  with get_law [OF g] assms(2) show ?thesis by (auto simp: get_str_def)
qed

lemma get_job_metadata_up:
  assumes "reads_up R" "serde_codec J fl" "metadata_ok md"
    and "view s (metadata_key job) = Some (as_bytes (to_text J (metadata_to_json md)))"
  shows "\<exists>s'. get_job_metadata R J job s = (Ok (Some md), s') \<and> rely (view s) (view s')"
proof -
  note parse = serde_codec.metadata_text [OF assms(2,3)]
  have "utf8_string (to_text J (metadata_to_json md))" by (rule serde_codec.metadata_utf8 [OF assms(2,3)])
  from get_str_up [OF assms(1,4) this] parse(2,3) show ?thesis by (auto simp: get_job_metadata_def)
qed

lemma completed_count_up:
  assumes "reads_up R" "\<forall>m m'. rely m m' \<longrightarrow> keeps_slices job m m'"
  shows "\<exists>c s'. get_completed_slice_count R job n s = (c, s') \<and> rely (view s) (view s') \<and>
    card {i. i < n \<and> view s (slice_key job i) \<noteq> None} \<le> c \<and>
    c \<le> card {i. i < n \<and> view s' (slice_key job i) \<noteq> None}"
proof -
  obtain c s' where c: "count_slices R job [0..<n] 0 s = (c, s')" by (cases "count_slices R job [0..<n] 0 s")
  have "length (filter (\<lambda>i. view s (slice_key job i) \<noteq> None) [0..<n]) \<le> c"
    using count_slices_exact [OF assms(2,1) c] by simp
  moreover have "c \<le> length (filter (\<lambda>i. view s' (slice_key job i) \<noteq> None) [0..<n]) \<and> rely (view s) (view s')"
    using count_slices_bounds [OF assms(2) c] by simp
  ultimately show ?thesis using c by (auto simp: get_completed_slice_count_def length_filter_upt)
qed

end

text \<open>A job whose result is stored.\<close>

lemma get_result_final:
  assumes "redis_server (g_redis G) view rely" "reads_up (g_redis G)" "serde_codec (g_serde G) fl"
    and "\<forall>m m'. rely m m' \<longrightarrow> keeps_answer job m m'"
    and "job_view_of (g_serde G) job (Final n vals) (view s)"
  shows "\<exists>s' ttl. get_result G job s =
      (Reply (ready_response job n ttl (Ok (map (\<lambda>x. narrow (g_arith G) (fl x)) vals))), s') \<and>
    rely (view s) (view s')"
proof -
  let ?t = "to_text (g_serde G) (json_f64s vals)"
  obtain md where md: "metadata_ok md" "jm_total_slices md = n"
      "view s (metadata_key job) = Some (as_bytes (to_text (g_serde G) (metadata_to_json md)))"
    and res: "view s (result_key job) = Some (as_bytes ?t)" "list_all (\<lambda>x. finite_fp (f64_cls x)) vals"
    using assms(5) by (auto simp: job_view_of_def)
  from redis_server.get_job_metadata_up [OF assms(1-3) md(1,3)] obtain s1 where
    s1: "get_job_metadata (g_redis G) (g_serde G) job s = (Ok (Some md), s1)" "rely (view s) (view s1)" by blast
  have "view s1 (result_key job) = Some (as_bytes ?t)"
    using assms(4) [rule_format, OF s1(2)] res(1) by (simp add: keeps_answer_def)
  moreover have "utf8_string ?t"
    by (intro serde_codec.text_utf8 [OF assms(3)]) (auto simp: json_f64s_def json_f64_def list_all_iff)
  ultimately obtain s2 where
    s2: "get_str (g_redis G) (result_key job) s1 = (Ok (Some ?t), s2)" "rely (view s1) (view s2)"
    using redis_server.get_str_up [OF assms(1,2)] by blast
  have floats: "parse_floats (g_serde G) (g_arith G) ?t = Ok (map (\<lambda>x. narrow (g_arith G) (fl x)) vals)"
    using serde_codec.parse_floats_text [OF assms(3)] res(2) by blast
  obtain ttl s3 where s3: "ttl_of (g_redis G) (result_key job) s2 = (ttl, s3)"
    by (cases "ttl_of (g_redis G) (result_key job) s2")
  have "rely (view s) (view s3)"
    using s1(2) s2(2) redis_server.ttl_of_rely [OF assms(1) s3] redis_server.rely_trans [OF assms(1)] by blast
  moreover have "get_result G job s =
      (Reply (ready_response job n ttl (Ok (map (\<lambda>x. narrow (g_arith G) (fl x)) vals))), s3)"
    using md(2) by (simp add: get_result_def s1(1) s2(1) s3 floats)
  ultimately show ?thesis by blast
qed

text \<open>
  C11: \<open>GetResult\<close> reports what the store holds of the job, while other processes use the store: as
  long as reads succeed and nothing touches the job's metadata and result during the call, it says
  \<open>not_found\<close> without metadata; gives the final values, in single precision, once there are some;
  and says \<open>pending\<close> or \<open>running\<close> until then, with a number of slices between what was there when
  the call began and what is there when it ends. It writes nothing itself.
\<close>

theorem get_result_reports:
  assumes "redis_server (g_redis G) view rely" "reads_up (g_redis G)" "serde_codec (g_serde G) fl"
    and "\<forall>m m'. rely m m' \<longrightarrow> keeps_answer job m m' \<and> keeps_slices job m m'"
    and "job_view_of (g_serde G) job v (view s)"
  shows "\<exists>resp s' ttl. get_result G job s = (Reply resp, s') \<and> rely (view s) (view s') \<and>
    (case v of
       Unknown \<Rightarrow> rr_status resp = ''not_found'' \<and> rr_result resp = []
     | Final n vals \<Rightarrow> resp = ready_response job n ttl (Ok (map (\<lambda>x. narrow (g_arith G) (fl x)) vals))
     | InProgress n k \<Rightarrow> (\<exists>c. resp = progress_response job n c \<and> k \<le> c \<and>
         c \<le> card {i. i < n \<and> view s' (slice_key job i) \<noteq> None}))"
proof (cases v)
  case Unknown
  with assms(5) have "view s (metadata_key job) = None" by (simp add: job_view_of_def)
  from redis_server.get_str_up_none [OF assms(1,2) this] Unknown show ?thesis
    by (auto simp: get_result_def get_job_metadata_def)
next
  case (Final n vals)
  have "\<forall>m m'. rely m m' \<longrightarrow> keeps_answer job m m'" using assms(4) by blast
  from get_result_final [OF assms(1-3) this] assms(5) Final show ?thesis by fastforce
next
  case (InProgress n k)
  then obtain md where md: "metadata_ok md" "jm_total_slices md = n"
      "view s (metadata_key job) = Some (as_bytes (to_text (g_serde G) (metadata_to_json md)))"
    and res: "view s (result_key job) = None" "k = card {i. i < n \<and> view s (slice_key job i) \<noteq> None}"
    using assms(5) by (auto simp: job_view_of_def)
  from redis_server.get_job_metadata_up [OF assms(1-3) md(1,3)] obtain s1 where
    s1: "get_job_metadata (g_redis G) (g_serde G) job s = (Ok (Some md), s1)" "rely (view s) (view s1)" by blast
  have "view s1 (result_key job) = None" using assms(4) [rule_format, OF s1(2)] res(1) by (simp add: keeps_answer_def)
  from redis_server.get_str_up_none [OF assms(1,2) this] obtain s2 where
    s2: "get_str (g_redis G) (result_key job) s1 = (Ok None, s2)" "rely (view s1) (view s2)" by blast
  have "\<forall>m m'. rely m m' \<longrightarrow> keeps_slices job m m'" using assms(4) by blast
  from redis_server.completed_count_up [OF assms(1,2) this] obtain c s3 where
    s3: "get_completed_slice_count (g_redis G) job n s2 = (c, s3)" "rely (view s2) (view s3)"
      "card {i. i < n \<and> view s2 (slice_key job i) \<noteq> None} \<le> c"
      "c \<le> card {i. i < n \<and> view s3 (slice_key job i) \<noteq> None}" by blast
  have rely02: "rely (view s) (view s2)" using s1(2) s2(2) redis_server.rely_trans [OF assms(1)] by blast
  then have "keeps_slices job (view s) (view s2)" using assms(4) by blast
  then have "k \<le> card {i. i < n \<and> view s2 (slice_key job i) \<noteq> None}"
    unfolding res(2) by (intro card_mono) (auto simp: keeps_slices_def)
  moreover have "rely (view s) (view s3)" using rely02 s3(2) redis_server.rely_trans [OF assms(1)] by blast
  ultimately show ?thesis using InProgress md(2) s3(3,4)
    by (auto simp: get_result_def s1(1) s2(1) s3(1))
qed

text \<open>A submitted job of which one slice out of two is there.\<close>

definition half_world :: world where
  "half_world = put (metadata_key ''j'') (as_bytes (to_text ref_serde (metadata_to_json
     (demo_metadata\<lparr>jm_total_slices := 2\<rparr>)))) None demo_world"

lemma half_view: "job_view_of ref_serde ''j'' (InProgress 2 1) (live half_world)"
proof -
  have "metadata_ok (demo_metadata\<lparr>jm_total_slices := 2\<rparr>)"
    using demo_metadata_ok by (simp add: metadata_ok_def demo_metadata_def)
  moreover have "{i. i < 2 \<and> i = 0} = {0 :: nat}" by auto
  ultimately show ?thesis
    by (auto simp: job_view_of_def half_world_def live_put_plain demo_live)
qed

lemma get_result_reports_witness:
  "\<exists>w'. get_result demo_gateway ''j'' half_world = (Reply (progress_response ''j'' 2 1), w') \<and>
    live half_world = live w'"
proof -
  have "\<exists>resp w' ttl. get_result demo_gateway ''j'' half_world = (Reply resp, w') \<and> live half_world = live w' \<and>
    (case InProgress 2 1 of
       Unknown \<Rightarrow> rr_status resp = ''not_found'' \<and> rr_result resp = []
     | Final n vals \<Rightarrow> resp = ready_response ''j'' n ttl (Ok (map (\<lambda>x. narrow (g_arith demo_gateway) x) vals))
     | InProgress n k \<Rightarrow> (\<exists>c. resp = progress_response ''j'' n c \<and> k \<le> c \<and>
         c \<le> card {i. i < n \<and> live w' (slice_key ''j'' i) \<noteq> None}))"
    by (rule get_result_reports [where rely = "(=)"])
      (use quiet.redis_server_axioms ref_serde.serde_codec_axioms half_view in
        \<open>simp_all add: demo_gateway_def\<close>)
  then show ?thesis using half_view by (auto simp: job_view_of_def)
qed

text \<open>What an answered request leaves in the store, if nothing else touches its metadata and result.\<close>

context gateway_runtime
begin

lemma set_ex_ok:
  assumes "\<forall>m m'. rely m m' \<longrightarrow> keeps_answer job m m'" "set_ex R k t ttl s = (Ok u, s')"
  shows "keeps_answer job ((view s)(k \<mapsto> as_bytes t)) (view s')"
  using set_ex_wrote [OF assms(2)] assms(1) by (auto simp: wrote_def)

lemma aggregate_stores:
  assumes keep: "\<forall>m m'. rely m m' \<longrightarrow> keeps_answer job m m'"
    and md: "view s (metadata_key job) = Some b"
    and run: "aggregate R E J A T env gpu job n s = Some (Ok text, s')"
  shows "(\<exists>vals. text = to_text J (json_f64s vals)) \<and> view s' (metadata_key job) = Some b \<and>
    view s' (result_key job) = Some (as_bytes text)"
proof -
  let ?I = "\<lambda>m :: keyspace. m (metadata_key job) = Some b"
  have I: "?I m'" if "?I m" "rely m m'" for m m'
    using keep [rule_format, OF that(2)] that(1) by (simp add: keeps_answer_def)
  obtain r s1 where w: "wait_for_all_slices R E J T env job n s = Some (r, s1)"
    using run by (auto simp: aggregate_def split: option.splits)
  have s1: "?I (view s1)"
    by (rule wait_for_all_slices_law(1) [where I = ?I and P = "\<lambda>_ _. True", OF _ _ md w]) (use I in auto)
  obtain vals where json: "text = to_text J (json_f64s vals)"
    and st: "store_final_result R J env (sys_secs T) job text s1 = (Ok (), s')"
    using run w by (auto simp: aggregate_def Let_def split: sum.splits prod.splits)
  obtain s2 v where 1: "set_ex R (result_key job) text (result_ttl env) s1 = (Ok (), s2)"
    and 2: "set_ex R (progress_key job) v (progress_ttl env) s2 = (Ok (), s')"
    using st by (auto simp: store_final_result_def update_progress_def Let_def split: prod.splits sum.splits)
  show ?thesis
    using set_ex_ok [OF keep 1] set_ex_ok [OF keep 2] s1 json by (auto simp: keeps_answer_def)
qed

end

text \<open>
  C15: a job that \<open>SubmitTask\<close> has answered can be asked for again: at any later time, as long as
  its metadata and its result have not expired and no other process has touched them, \<open>GetResult\<close>
  says \<open>ready\<close> and gives the same values, to the bit. Whatever else happens to the store meanwhile.
\<close>

theorem submitted_then_ready:
  assumes "gateway_runtime (g_redis G) view rely (g_runtime G)" "reads_up (g_redis G)"
    and "serde_codec (g_serde G) fl" "utf8_string (tr_job_id req)" "sys_secs (g_runtime G) s < 2 ^ 64"
    and "make_slices (g_env G) (g_nccl_dispatch G) (g_world_size G)
      (map (widen (g_arith G)) (tr_vector req)) = Reply slices" "length slices < 2 ^ 64"
    and "\<forall>m m'. rely m m' \<longrightarrow> keeps_answer (tr_job_id req) m m'"
    and "submit_task G req s = Some (Reply resp, s')" "rely (view s') (view s2)"
  shows "\<exists>s3 ttl. get_result G (tr_job_id req) s2 =
    (Reply (ready_response (tr_job_id req) (length slices) ttl (Ok (ts_result resp))), s3)"
proof -
  let ?job = "tr_job_id req"
  let ?md = "\<lparr>jm_job_id = ?job, jm_task_type = tr_task req, jm_total_slices = length slices,
    jm_created_at = sys_secs (g_runtime G) s, jm_status = ''submitted''\<rparr>"
  let ?mt = "as_bytes (to_text (g_serde G) (metadata_to_json ?md))"
  note gw = gateway_runtime.axioms(1) [OF assms(1)]
  from assms(6,9) obtain s1 where task: "tr_task req = ''softmax''"
    and meta: "set_job_metadata (g_redis G) (g_serde G) (g_env G) ?job ?md s = (Ok (), s1)"
    and disp: "dispatch_task G ?job (tr_task req) slices s1 = Some (Reply resp, s')"
    by (auto simp: submit_task_def Let_def split: if_splits sum.splits prod.splits)
  have md1: "view s1 (metadata_key ?job) = Some ?mt"
    using gateway_runtime.set_ex_ok [OF assms(1,8) meta [unfolded set_job_metadata_def Let_def]]
    by (simp add: keeps_answer_def)
  from disp obtain u sp t fs where
    pub: "publish_all (bus_publish (g_runtime G))
      (task_messages (g_serde G) (g_nccl_dispatch G) ?job (tr_task req) slices) s1 = (Ok u, sp)"
    and agg: "aggregate (g_redis G) (g_endian G) (g_serde G) (g_arith G) (g_runtime G) (g_env G) (g_gpu G)
      ?job (length slices) sp = Some (Ok t, s')"
    and fs: "parse_floats (g_serde G) (g_arith G) t = Ok fs"
    and resp: "resp = \<lparr>ts_message = ''OK'', ts_result = fs\<rparr>"
    by (auto simp: dispatch_task_def split: sum.splits prod.splits option.splits)
  have "view sp (metadata_key ?job) = Some ?mt"
    using md1 assms(8) [rule_format, OF gateway_runtime.publish_all_rely [OF assms(1) pub]]
    by (simp add: keeps_answer_def)
  from gateway_runtime.aggregate_stores [OF assms(1,8) this agg] obtain vals where
    st: "t = to_text (g_serde G) (json_f64s vals)" "view s' (metadata_key ?job) = Some ?mt"
      "view s' (result_key ?job) = Some (as_bytes t)" by blast
  have vals: "list_all (\<lambda>x. finite_fp (f64_cls x)) vals" "fs = map (\<lambda>x. narrow (g_arith G) (fl x)) vals"
    using fs serde_codec.parse_floats_text [OF assms(3)] st(1) by auto
  have "metadata_ok ?md" using assms(4,5,7) task by (simp add: metadata_ok_def utf8_string_def)
  then have "job_view_of (g_serde G) ?job (Final (length slices) vals) (view s2)"
    using assms(8) [rule_format, OF assms(10)] st vals(1)
    by (auto simp: job_view_of_def keeps_answer_def intro!: exI [of _ ?md])
  from get_result_final [OF gw assms(2,3,8) this] show ?thesis by (auto simp: resp vals(2))
qed

lemma submitted_then_ready_witness:
  "\<exists>resp w' w3 ttl. submit_task demo_gateway demo_request demo_world = Some (Reply resp, w') \<and>
    get_result demo_gateway (tr_job_id demo_request) w' =
      (Reply (ready_response (tr_job_id demo_request) (length [[f64_of_f32 demo_prob]]) ttl (Ok (ts_result resp))), w3)"
proof -
  obtain resp w' where run: "submit_task demo_gateway demo_request demo_world = Some (Reply resp, w')"
    using demo_run by blast
  have "\<exists>w3 ttl. get_result demo_gateway (tr_job_id demo_request) w' =
      (Reply (ready_response (tr_job_id demo_request) (length [[f64_of_f32 demo_prob]]) ttl (Ok (ts_result resp))), w3)"
  proof (rule submitted_then_ready [OF _ _ _ _ _ _ _ _ run])
    show "gateway_runtime (g_redis demo_gateway) live (=) (g_runtime demo_gateway)"
      using quiet.gateway_runtime_axioms by (simp add: demo_gateway_def)
    show "serde_codec (g_serde demo_gateway) (\<lambda>x. x)"
      using ref_serde.serde_codec_axioms by (simp add: demo_gateway_def)
    show "make_slices (g_env demo_gateway) (g_nccl_dispatch demo_gateway) (g_world_size demo_gateway)
        (map (widen (g_arith demo_gateway)) (tr_vector demo_request)) = Reply [[f64_of_f32 demo_prob]]"
      using demo_slices by (simp add: demo_gateway_def ieee_conv)
  qed (simp_all add: demo_gateway_def demo_request_def demo_world_def utf8_string_def ref_runtime_def)
  with run show ?thesis by blast
qed

text \<open>
  C16: nothing removes the slices of a job, and a request does not look at how old they are. So a
  request under an identifier whose slices are stored is answered from those: two requests with
  different vectors, of the same number of slices, get the same reply.
\<close>

theorem reused_job_same_reply:
  assumes "g_redis G = quiet_redis" "g_runtime G = quiet_runtime" "ttls_positive (g_env G)"
    and "serde_codec (g_serde G) fl" "alive (w_bus w)"
    and "routes_slices (g_nccl_dispatch G) (w_bus w) (length xs)"
    and "ready_as (g_endian G) (g_serde G) job xs (live w)"
    and "aggregate_values (g_arith G) (g_gpu G) xs = Ok vals"
    and "list_all (\<lambda>x. finite_fp (f64_cls x)) vals"
  shows "\<exists>result. \<forall>req slices. tr_job_id req = job \<and> tr_task req = ''softmax'' \<and> tr_vector req \<noteq> [] \<and>
      make_slices (g_env G) (g_nccl_dispatch G) (g_world_size G)
        (map (widen (g_arith G)) (tr_vector req)) = Reply slices \<and> length slices = length xs \<longrightarrow>
    (\<exists>w'. submit_task G req w = Some (Reply \<lparr>ts_message = ''OK'', ts_result = result\<rparr>, w'))"
  using quiet_submit_task [OF assms(1-4) _ _ _ assms(5) _ _ _ assms(8,9)] assms(6,7)
  by (intro exI [of _ "map (\<lambda>x. narrow (g_arith G) (fl x)) vals"]) fastforce

definition other_request :: task_request where
  "other_request = demo_request\<lparr>tr_vector := [0x40490FDB]\<rparr>"

lemma reused_job_same_reply_witness:
  "\<exists>result w1 w2. submit_task demo_gateway demo_request demo_world =
      Some (Reply \<lparr>ts_message = ''OK'', ts_result = result\<rparr>, w1) \<and>
    submit_task demo_gateway other_request demo_world =
      Some (Reply \<lparr>ts_message = ''OK'', ts_result = result\<rparr>, w2)"
proof -
  have J: "serde_codec (g_serde demo_gateway) (\<lambda>x. x)"
    using ref_serde.serde_codec_axioms by (simp add: demo_gateway_def)
  have r: "ready_as (g_endian demo_gateway) (g_serde demo_gateway) ''j'' [payload_stats (ieee id id) demo_slice]
      (live demo_world)"
    using demo_ready by (simp add: demo_gateway_def)
  have v: "aggregate_values (g_arith demo_gateway) (g_gpu demo_gateway)
      [payload_stats (ieee id id) demo_slice] = Ok [f64_of_f32 demo_prob]"
    using demo_values by (simp add: demo_gateway_def)
  obtain result where all: "\<forall>req slices. tr_job_id req = ''j'' \<and> tr_task req = ''softmax'' \<and> tr_vector req \<noteq> [] \<and>
      make_slices (g_env demo_gateway) (g_nccl_dispatch demo_gateway) (g_world_size demo_gateway)
        (map (widen (g_arith demo_gateway)) (tr_vector req)) = Reply slices \<and>
        length slices = length [payload_stats (ieee id id) demo_slice] \<longrightarrow>
    (\<exists>w'. submit_task demo_gateway req demo_world = Some (Reply \<lparr>ts_message = ''OK'', ts_result = result\<rparr>, w'))"
    using reused_job_same_reply [OF _ _ _ J _ _ r v]
    by (auto simp: demo_simps demo_ttls finite_widen demo_prob_finite)
  have "make_slices (g_env demo_gateway) (g_nccl_dispatch demo_gateway) (g_world_size demo_gateway)
      (map (widen (g_arith demo_gateway)) (tr_vector other_request)) = Reply [[f64_of_f32 0x40490FDB]]"
    by (simp add: demo_gateway_def other_request_def demo_request_def make_slices_def even_chunks_def
        chunk_take_def ieee_conv)
  then have "\<exists>w'. submit_task demo_gateway other_request demo_world =
      Some (Reply \<lparr>ts_message = ''OK'', ts_result = result\<rparr>, w')"
    by (intro all [rule_format, of _ "[[f64_of_f32 0x40490FDB]]"]) (simp add: other_request_def demo_request_def)
  moreover have "\<exists>w'. submit_task demo_gateway demo_request demo_world =
      Some (Reply \<lparr>ts_message = ''OK'', ts_result = result\<rparr>, w')"
    using demo_slices
    by (intro all [rule_format, of _ "[[f64_of_f32 demo_prob]]"])
      (simp add: demo_gateway_def demo_request_def ieee_conv)
  ultimately show ?thesis by blast
qed

section \<open>The cache manager\<close>

context redis_server
begin

lemma count_expired_zero:
  assumes stay: "\<forall>m m' k. rely m m' \<longrightarrow> m k \<noteq> None \<longrightarrow> m' k \<noteq> None"
  shows "count_expired R ks c s = (n, s') \<Longrightarrow> \<forall>k \<in> set ks. view s k \<noteq> None \<Longrightarrow> n = c"
proof (induction ks arbitrary: c s)
  case (Cons k ks)
  obtain t s1 where t: "ttl_of R k s = (t, s1)" by (cases "ttl_of R k s")
  have "t \<noteq> - 2" using ttl_of_missing [of k s s1] t Cons.prems(2) by auto
  moreover have "\<forall>k \<in> set ks. view s1 k \<noteq> None"
    using Cons.prems(2) stay ttl_of_rely [OF t] by auto
  ultimately show ?case using Cons.IH [of c s1] Cons.prems(1) t by simp
qed simp

lemma run_cleanup_zero:
  assumes stay: "\<forall>m m' k. rely m m' \<longrightarrow> m k \<noteq> None \<longrightarrow> m' k \<noteq> None"
    and run: "run_cleanup R s = (st, s')"
  shows "expired_keys st = 0"
proof -
  obtain rk s1 where 1: "keys_by_pattern R ''result:*'' s = (rk, s1)"
    by (cases "keys_by_pattern R ''result:*'' s")
  obtain mk s2 where 2: "keys_by_pattern R ''metadata:*'' s1 = (mk, s2)"
    by (cases "keys_by_pattern R ''metadata:*'' s1")
  obtain pk s3 where 3: "keys_by_pattern R ''progress:*'' s2 = (pk, s3)"
    by (cases "keys_by_pattern R ''progress:*'' s2")
  obtain n s4 where 4: "count_expired R (rk @ mk @ pk) 0 s3 = (n, s4)"
    by (cases "count_expired R (rk @ mk @ pk) 0 s3")
  note law = keys_by_pattern_law [OF 1] keys_by_pattern_law [OF 2] keys_by_pattern_law [OF 3]
  have "view s3 k \<noteq> None" if "view s1 k \<noteq> None \<or> view s2 k \<noteq> None" for k
    using that law stay by blast
  moreover have "view s1 k \<noteq> None" if "k \<in> set rk" for k
    using that law(1) stay by blast
  moreover have "view s2 k \<noteq> None" if "k \<in> set mk" for k
    using that law(2) stay by blast
  moreover have "view s3 k \<noteq> None" if "k \<in> set pk" for k
    using that law(3) stay by blast
  ultimately have "\<forall>k \<in> set (rk @ mk @ pk). view s3 k \<noteq> None" by auto
  with count_expired_zero [OF stay 4] run show ?thesis by (auto simp: run_cleanup_def 1 2 3 4)
qed

end

text \<open>
  C37: a round of the cache manager writes nothing: what changes in the meantime is the work of
  others. The keys it counts add up, the expired ones are some of them, and if no key disappears
  while it runs it counts none as expired, since \<open>KEYS\<close> lists only keys that are there.
\<close>

theorem cleanup_only_reads:
  assumes "redis_server R view rely" "run_cleanup R s = (st, s')"
  shows "rely (view s) (view s') \<and> expired_keys st \<le> total_keys st \<and>
    total_keys st = result_keys st + metadata_keys st + progress_keys st \<and>
    ((\<forall>m m' k. rely m m' \<longrightarrow> m k \<noteq> None \<longrightarrow> m' k \<noteq> None) \<longrightarrow> expired_keys st = 0)"
  using redis_server.run_cleanup_law [OF assms] redis_server.run_cleanup_zero [OF assms(1) _ assms(2)]
  by blast

lemma cleanup_only_reads_witness:
  "\<exists>st w'. run_cleanup quiet_redis demo_world = (st, w') \<and> live demo_world = live w' \<and>
    expired_keys st = 0"
proof -
  obtain st w' where run: "run_cleanup quiet_redis demo_world = (st, w')"
    by (cases "run_cleanup quiet_redis demo_world")
  with cleanup_only_reads [OF quiet.redis_server_axioms run] show ?thesis by auto
qed

end
