(* ===== verification/Startup.thy ===== *)
theory Startup
  imports Gateway_Spec
begin

text \<open>
  Both programs' start-up: what a gateway that came up can route, whether the endpoints of the two
  sides meet, and the rendezvous of the NCCL ranks.
\<close>

section \<open>The gateway's publisher\<close>

lemma open_ranks_channels:
  "open_ranks Z env rs = Ok cs \<Longrightarrow> map fst cs = replicate (length rs) new_channel"
  by (induction rs arbitrary: cs) (auto split: sum.splits)

lemma gateway_world_size_bound: "gateway_world_size env < 2 ^ 64"
  using parse_uint_bound [of "2 ^ 64"]
  by (auto simp: gateway_world_size_def env_uint_def split: option.splits)

lemma gateway_main_ok:
  assumes "gateway_main Z redis_open redis_connect parse_addr env = Ok (p, nccl, ws)"
  shows "ws = gateway_world_size env"
    and "nccl \<Longrightarrow> p = ZmqMultiPublisher (replicate ws new_channel)"
    and "\<not> nccl \<Longrightarrow> p = ZmqPublisher new_channel"
  using assms
  by (auto simp: gateway_main_def Let_def zmq_publisher_new_def zmq_multi_publisher_new_def
      split: if_splits sum.splits dest!: open_ranks_channels)

lemma make_slices_nccl:
  "make_slices env True ws vector = Reply slices \<Longrightarrow> length slices = ws"
  by (auto simp: make_slices_def split: if_splits)

text \<open>
  C24: a gateway that came up can dispatch every request it accepts: its socket threads are
  alive, its queues empty, and there is a queue for every slice of any vector, one per rank in NCCL
  mode. So no publish fails until a socket thread ends.
\<close>

theorem gateway_start_routes:
  assumes "gateway_main Z redis_open redis_connect parse_addr env = Ok (p, nccl, ws)"
    and "make_slices env nccl ws vector = Reply slices"
  shows "alive p \<and> (\<forall>i. queue p i = []) \<and> routes_slices nccl p (length slices)"
proof (cases nccl)
  case True
  note p = gateway_main_ok(2) [OF assms(1) True]
  have "length slices = ws" using make_slices_nccl [of env ws vector slices] assms(2) True by simp
  moreover have "ws < 2 ^ 64" using gateway_main_ok(1) [OF assms(1)] gateway_world_size_bound by simp
  ultimately show ?thesis
    by (simp add: p True alive_def new_channel_def list_all_length routes_slices_def slice_subject_def multi_route_def)
next
  case False
  note p = gateway_main_ok(3) [OF assms(1) False]
  show ?thesis by (simp add: p False alive_def new_channel_def routes_slices_def)
qed

definition demo_zmq :: "unit zmq" where
  "demo_zmq = \<lparr>z_spawn = \<lambda>_. Ok (), z_socket = Ok (), z_bind = \<lambda>_ _. Ok (), z_send = \<lambda>_ z. (Ok (), z)\<rparr>"

lemma gateway_start_routes_witness:
  "\<exists>p. gateway_main demo_zmq (\<lambda>_. Ok ()) (\<lambda>_. Ok ()) (\<lambda>_. Ok ()) [''TRANSPORT'' \<mapsto> ''zmq_nccl''] = Ok (p, True, 4) \<and>
    alive p \<and> (\<forall>i. queue p i = []) \<and> routes_slices True p (length (even_chunks [1, 2, 3, 4 :: nat] 4))"
proof -
  let ?env = "[''TRANSPORT'' \<mapsto> ''zmq_nccl''] :: environment"
  have ws: "gateway_world_size ?env = 4" by (simp add: gateway_world_size_def env_uint_def)
  obtain cs where cs: "zmq_multi_publisher_new demo_zmq ?env 4 = Ok cs"
    by (simp add: zmq_multi_publisher_new_def upt_conv_Cons demo_zmq_def rank_thread_start_def)
  have main: "gateway_main demo_zmq (\<lambda>_. Ok ()) (\<lambda>_. Ok ()) (\<lambda>_. Ok ()) ?env =
      Ok (ZmqMultiPublisher (map fst cs), True, 4)"
    by (simp add: gateway_main_def Let_def env_or_def ws cs redis_manager_new_def)
  moreover have "make_slices ?env True 4 [1, 2, 3, 4 :: nat] = Reply (even_chunks [1, 2, 3, 4] 4)"
    by (simp add: make_slices_def)
  ultimately show ?thesis using gateway_start_routes [OF main] by blast
qed

section \<open>Endpoints\<close>

lemma worker_main_nccl:
  assumes "worker_main cuda gpu_start redis_open redis_connect env = Serve (NcclRank r ws ep)"
  shows "cuda" "nccl_rank (worker_from_env env) = int r"
    and "ep = (if env_or env ''ZMQ_GATEWAY_ADDR'' '''' \<noteq> ''''
      then ''tcp://'' @ env_or env ''ZMQ_GATEWAY_ADDR'' '''' @ '':'' @
        dec (rank_port (env_u16 env ''ZMQ_BASE_PORT'' 5560) r)
      else env_or env ''ZMQ_PULL_ENDPOINT'' ''ipc:///tmp/softmax_tasks'')"
  using assms
  by (auto simp: worker_main_def Let_def worker_from_env_def run_nccl_cpu_def split: if_splits sum.splits)

text \<open>
  C36: an NCCL worker that is given the gateway's address connects to the port on which the
  gateway binds the socket of its rank, if both use TCP and the same base port. With nothing but
  the defaults on both sides it does not: the gateway binds \<open>ipc:///tmp/softmax_N\<close>, the worker
  connects to the endpoint of the other transport and receives nothing.
\<close>

theorem nccl_endpoints_meet:
  assumes "worker_main cuda gpu_start redis_open redis_connect env = Serve (NcclRank r ws ep)"
  shows "(env ''ZMQ_GATEWAY_ADDR'' = Some addr \<and> addr \<noteq> '''' \<and>
      tcp_mode (env_or genv ''ZMQ_BASE_ENDPOINT'' ''ipc:///tmp/softmax'') \<and>
      genv ''ZMQ_BASE_PORT'' = env ''ZMQ_BASE_PORT'' \<longrightarrow>
      (\<exists>port < 2 ^ 16. rank_bind_endpoint genv r = ''tcp://0.0.0.0:'' @ dec port \<and>
        ep = ''tcp://'' @ addr @ '':'' @ dec port)) \<and>
    (env ''ZMQ_GATEWAY_ADDR'' = None \<and> env ''ZMQ_PULL_ENDPOINT'' = None \<and> genv ''ZMQ_BASE_ENDPOINT'' = None \<longrightarrow>
      rank_bind_endpoint genv r = ''ipc:///tmp/softmax_'' @ dec r \<and> ep = ''ipc:///tmp/softmax_tasks'' \<and>
      rank_bind_endpoint genv r \<noteq> ep)"
proof -
  have "\<not> tcp_mode ''ipc:///tmp/softmax''" by code_simp
  moreover have "dec r \<noteq> ''tasks''"
    using dec_digits [of r] by (auto simp: is_digit_def)
  ultimately show ?thesis
    using worker_main_nccl(3) [OF assms]
    by (auto simp: rank_bind_endpoint_def Let_def env_or_def env_u16_def env_uint_def rank_port_def)
qed

definition nccl_worker_env :: environment where
  "nccl_worker_env = [''TRANSPORT'' \<mapsto> ''zmq_nccl'', ''NCCL_RANK'' \<mapsto> dec 3, ''ZMQ_GATEWAY_ADDR'' \<mapsto> ''gw'']"

lemma nccl_worker_start:
  "worker_main True (\<lambda>_. Ok ()) (\<lambda>_. Ok ()) (\<lambda>_. Ok ()) nccl_worker_env =
    Serve (NcclRank 3 4 (''tcp://'' @ ''gw'' @ '':'' @ dec 5563))"
proof -
  have cfg: "worker_from_env nccl_worker_env =
      \<lparr>transport = ''zmq_nccl'', redis_host = ''localhost'', redis_port = 6379,
       zmq_pull_endpoint = ''tcp://'' @ ''gw'' @ '':'' @ dec 5563, zmq_gateway_addr = ''gw'',
       zmq_base_port = 5560, nccl_rank = 3, nccl_world_size = 4, num_workers = 4, cuda_device = 3\<rparr>"
    by (simp add: worker_from_env_def nccl_worker_env_def env_or_def env_i32_def
        env_u16_def env_u32_def env_uint_def env_usize_def rank_port_def)
  show ?thesis unfolding worker_main_def cfg by (simp add: rank_port_def)
qed

lemma nccl_endpoints_meet_witness:
  "\<exists>port < 2 ^ 16. rank_bind_endpoint [''ZMQ_BASE_ENDPOINT'' \<mapsto> ''tcp://0.0.0.0''] 3 = ''tcp://0.0.0.0:'' @ dec port \<and>
    ''tcp://'' @ ''gw'' @ '':'' @ dec 5563 = ''tcp://'' @ ''gw'' @ '':'' @ dec port"
proof -
  have "tcp_mode ''tcp://0.0.0.0''" by code_simp
  then show ?thesis
    using conjunct1 [OF nccl_endpoints_meet [OF nccl_worker_start, of "''gw''" "[''ZMQ_BASE_ENDPOINT'' \<mapsto> ''tcp://0.0.0.0'']"]]
    by (simp add: nccl_worker_env_def env_or_def)
qed

section \<open>The rendezvous of the ranks\<close>

context redis_server
begin

lemma await_uid_law:
  assumes sleep: "\<forall>d s. rely (view s) (view (sleep d s))"
  shows "await_uid R sleep left s = (Ok (Some b), s') \<Longrightarrow>
    \<exists>m. rely (view s) m \<and> m nccl_uid_key = Some b \<and> rely m (view s')"
proof (induction left arbitrary: s)
  case (Suc left)
  obtain g s1 where g: "r_get R nccl_uid_key s = (g, s1)" by (cases "r_get R nccl_uid_key s")
  note law = get_law [OF g]
  show ?case
  proof (cases "g = Ok None")
    case True
    with Suc.prems g have run: "await_uid R sleep left (sleep 50 s1) = (Ok (Some b), s')" by simp
    have "rely (view s) (view (sleep 50 s1))" using law sleep rely_trans by blast
    with Suc.IH [OF run] rely_trans show ?thesis by blast
  next
    case False
    with Suc.prems g have "g = Ok (Some b)" "s' = s1" by (auto split: sum.splits option.splits)
    with law show ?thesis by (intro exI [of _ "view s"]) (auto simp: rely_refl)
  qed
qed simp

lemma rendezvous_id_law:
  assumes sleep: "\<forall>d s. rely (view s) (view (sleep d s))"
    and run: "rendezvous_id R sleep (Ok b) rank s = (Ok i, s')"
  shows "rank = 0 \<Longrightarrow> i = b \<and> (\<exists>m. wrote (Ok ()) (view s) nccl_uid_key b m \<and> rely m (view s'))"
    and "0 < rank \<Longrightarrow> \<exists>m. rely (view s) m \<and> m nccl_uid_key = Some i \<and> rely m (view s')"
proof -
  show "i = b \<and> (\<exists>m. wrote (Ok ()) (view s) nccl_uid_key b m \<and> rely m (view s'))" if "rank = 0"
    using that run set_ex_law [of nccl_uid_key b nccl_uid_ttl s]
    by (auto simp: rendezvous_id_def split: prod.splits sum.splits)
  assume "0 < rank"
  with run have "await_uid R sleep 200 s = (Ok (Some i), s')"
    by (auto simp: rendezvous_id_def split: prod.splits sum.splits option.splits)
  then show "\<exists>m. rely (view s) m \<and> m nccl_uid_key = Some i \<and> rely m (view s')"
    by (rule await_uid_law [OF sleep])
qed

end

text \<open>
  C12: a rank leaves the rendezvous successfully only with an identifier of 128 bytes, and after it
  has seen every rank announced at some moment since it announced itself. The identifier is the one
  it generated, for rank 0, and for any other rank one that was under the identifier's key while it
  polled. So if nothing but what rank 0 generated is ever under that key while the rank polls, that
  is the identifier it gets.
\<close>

theorem rendezvous_agrees:
  assumes "redis_server R view rely" "\<forall>d s. rely (view s) (view (sleep d s))"
    and "nccl_rendezvous R sleep (Ok b) rank world_size s = (Ok i, s')"
  shows "length i = 128 \<and>
    (\<exists>s1 s2 u.
      (if rank = 0 then i = b else \<exists>m. rely (view s) m \<and> m nccl_uid_key = Some i \<and> rely m (view s1)) \<and>
      r_set_ex R (nccl_ready_key rank) (as_bytes ''1'') nccl_uid_ttl s1 = (Ok u, s2) \<and>
      (\<forall>r < world_size. \<exists>m. rely (view s2) m \<and> m (nccl_ready_key r) \<noteq> None \<and> rely m (view s'))) \<and>
    ((\<forall>m v. rely (view s) m \<longrightarrow> m nccl_uid_key = Some v \<longrightarrow> v = b) \<longrightarrow> i = b)"
proof -
  obtain s1 s2 u v where 1: "rendezvous_id R sleep (Ok b) rank s = (Ok i, s1)"
    and 2: "r_set_ex R (nccl_ready_key rank) (as_bytes ''1'') nccl_uid_ttl s1 = (Ok u, s2)"
    and 3: "await_ready R sleep rank world_size 200 s2 = (Ok v, s')" and 4: "length i = 128"
    using assms(3) by (auto simp: nccl_rendezvous_def split: prod.splits sum.splits if_splits)
  note uid = redis_server.rendezvous_id_law [OF assms(1,2) 1]
  have id: "if rank = 0 then i = b else \<exists>m. rely (view s) m \<and> m nccl_uid_key = Some i \<and> rely m (view s1)"
    using uid by simp
  have ready: "\<forall>r < world_size. \<exists>m. rely (view s2) m \<and> m (nccl_ready_key r) \<noteq> None \<and> rely m (view s')"
    using redis_server.await_ready_law [OF assms(1,2) _ 3] by fastforce
  have "(\<forall>m v. rely (view s) m \<longrightarrow> m nccl_uid_key = Some v \<longrightarrow> v = b) \<longrightarrow> i = b"
    using id by (metis gr0I)
  with id 2 ready 4 show ?thesis by blast
qed

text \<open>The rendezvous over a store that no other process writes to meanwhile.\<close>

lemma nccl_keys [simp]:
  "nccl_ready_key r \<noteq> nccl_uid_key" "nccl_uid_key \<noteq> nccl_ready_key r"
  "nccl_ready_key r = nccl_ready_key r' \<longleftrightarrow> r = r'"
  by (simp_all add: nccl_ready_key_def nccl_uid_key_def)

definition announced :: "nat \<Rightarrow> world \<Rightarrow> bool" where
  "announced n w = (\<forall>r < n. live w (nccl_ready_key r) = Some (as_bytes ''1''))"

lemma quiet_count_ready:
  "\<forall>r \<in> set rs. live w (nccl_ready_key r) = Some (as_bytes ''1'') \<Longrightarrow>
    count_ready quiet_redis rs c w = (Ok (c + length rs), w)"
proof (induction rs arbitrary: c)
  case (Cons r rs)
  have one: "from_utf8 (as_bytes ''1'') = Ok ''1''" by (intro from_utf8_as_bytes) simp
  from Cons.prems have "live w (nccl_ready_key r) = Some (as_bytes ''1'')" by simp
  then have "get_str quiet_redis (nccl_ready_key r) w = (Ok (Some ''1''), w)"
    by (simp only: quiet_get_str option.case one sum.case)
  with Cons show ?case by simp
qed simp

lemma quiet_await_ready:
  assumes "announced n w" "0 < left"
  shows "await_ready quiet_redis sleep rank n left w = (Ok (), w)"
  using assms quiet_count_ready [of "[0..<n]" w 0] by (cases left) (simp_all add: announced_def)

lemma quiet_await_uid:
  assumes "live w nccl_uid_key = Some b" "0 < left"
  shows "await_uid quiet_redis sleep left w = (Ok (Some b), w)"
  using assms by (cases left) (simp_all add: quiet_get)

lemma live_set_ex:
  "r_set_ex quiet_redis k v nccl_uid_ttl w = (Ok (), put k v (Some (w_secs w + 60)) w)"
  "live (put k v (Some (w_secs w + 60)) w) = (live w)(k \<mapsto> v)"
  by (simp_all add: ref_redis_def nccl_uid_ttl_def live_put_expiry)

lemma quiet_rendezvous:
  assumes "rendezvous_id quiet_redis sleep new_id rank w = (Ok b, w1)"
    and "announced n (put (nccl_ready_key rank) (as_bytes ''1'') (Some (w_secs w1 + 60)) w1)" "length b = 128"
  shows "nccl_rendezvous quiet_redis sleep new_id rank n w =
    (Ok b, put (nccl_ready_key rank) (as_bytes ''1'') (Some (w_secs w1 + 60)) w1)"
  using assms quiet_await_ready [OF assms(2)] by (simp add: nccl_rendezvous_def live_set_ex)

text \<open>Two ranks, the second already announced.\<close>

definition rendezvous_world :: world where
  "rendezvous_world = put (nccl_ready_key 1) (as_bytes ''1'') None idle_world"

lemma rendezvous_agrees_witness:
  "\<exists>w'. nccl_rendezvous quiet_redis (\<lambda>_ w. w) (Ok (replicate 128 7)) 0 2 rendezvous_world =
      (Ok (replicate 128 7), w') \<and> length (replicate 128 (7 :: 8 word)) = 128 \<and>
    live w' (nccl_ready_key 0) \<noteq> None \<and> live w' (nccl_ready_key 1) \<noteq> None"
proof -
  let ?id = "replicate 128 (7 :: 8 word)"
  let ?w1 = "put nccl_uid_key ?id (Some (w_secs rendezvous_world + 60)) rendezvous_world"
  have id: "rendezvous_id quiet_redis (\<lambda>_ w. w) (Ok ?id) 0 rendezvous_world = (Ok ?id, ?w1)"
    by (simp add: rendezvous_id_def live_set_ex)
  obtain w' where run: "nccl_rendezvous quiet_redis (\<lambda>_ w. w) (Ok ?id) 0 2 rendezvous_world = (Ok ?id, w')"
    using quiet_rendezvous [OF id, of 2]
    by (simp add: announced_def live_set_ex rendezvous_world_def live_put_plain)
  have "\<forall>r < 2. live w' (nccl_ready_key r) \<noteq> None" "length ?id = 128"
    using rendezvous_agrees [OF quiet.redis_server_axioms _ run] by auto
  then have "live w' (nccl_ready_key 0) \<noteq> None" "live w' (nccl_ready_key 1) \<noteq> None" by simp_all
  with run show ?thesis by (intro exI [of _ w']) simp
qed

text \<open>
  C34: nothing ties the keys of the rendezvous to one run of the ranks, so a restart within the
  60 seconds they live splits the group: a rank that comes back before rank 0 leaves the rendezvous
  at once with the old identifier, and rank 0 leaves it with a new one.
\<close>

theorem stale_rendezvous_splits:
  assumes "live w nccl_uid_key = Some old" "announced n w"
    and "0 < rank" "rank < n" "length old = 128" "length new = 128"
  shows "\<exists>w1 w2. nccl_rendezvous quiet_redis sleep any rank n w = (Ok old, w1) \<and>
    nccl_rendezvous quiet_redis sleep (Ok new) 0 n w1 = (Ok new, w2)"
proof -
  let ?w1 = "put (nccl_ready_key rank) (as_bytes ''1'') (Some (w_secs w + 60)) w"
  let ?u = "put nccl_uid_key new (Some (w_secs ?w1 + 60)) ?w1"
  have "rendezvous_id quiet_redis sleep any rank w = (Ok old, w)"
    using assms(3) quiet_await_uid [OF assms(1)] by (simp add: rendezvous_id_def)
  then have first: "nccl_rendezvous quiet_redis sleep any rank n w = (Ok old, ?w1)"
    using assms(2,5) by (intro quiet_rendezvous) (simp_all add: announced_def live_set_ex)
  have "rendezvous_id quiet_redis sleep (Ok new) 0 ?w1 = (Ok new, ?u)"
    by (simp add: rendezvous_id_def live_set_ex)
  then have "nccl_rendezvous quiet_redis sleep (Ok new) 0 n ?w1 =
      (Ok new, put (nccl_ready_key 0) (as_bytes ''1'') (Some (w_secs ?u + 60)) ?u)"
    using assms(2,6) by (intro quiet_rendezvous) (simp_all add: announced_def live_set_ex)
  with first show ?thesis by blast
qed

text \<open>What a run of two ranks leaves behind.\<close>

definition leftover_world :: world where
  "leftover_world = put nccl_uid_key (replicate 128 7) (Some 60)
     (put (nccl_ready_key 0) (as_bytes ''1'') (Some 60) (put (nccl_ready_key 1) (as_bytes ''1'') (Some 60) idle_world))"

lemma leftover_keys: "live leftover_world nccl_uid_key = Some (replicate 128 7)" "announced 2 leftover_world"
  by (auto simp: leftover_world_def announced_def live_def put_def idle_world_def less_2_cases_iff)

lemma stale_rendezvous_splits_witness:
  "\<exists>w1 w2. nccl_rendezvous quiet_redis (\<lambda>_ w. w) (Ok []) 1 2 leftover_world = (Ok (replicate 128 7), w1) \<and>
    nccl_rendezvous quiet_redis (\<lambda>_ w. w) (Ok (replicate 128 8)) 0 2 w1 = (Ok (replicate 128 8), w2)"
  by (rule stale_rendezvous_splits [OF leftover_keys]) simp_all

text \<open>
  C35: \<open>CUDA_DEVICE\<close> has no effect on an NCCL rank: the rank opens the device that has its own
  number. On a machine without such a device, as the second machine of the documented deployment
  is, it stops, whatever device it was told to use.
\<close>

theorem nccl_rank_ignores_device:
  assumes "worker_main True gpu_start redis_open redis_connect env = Serve (NcclRank r ws ep)"
    and "env ''CUDA_DEVICE'' = Some (dec d)" "d < 2 ^ 64"
    and "cu_call D 0 (NewContext r) = Err err"
  shows "cuda_device (worker_from_env env) = d \<and>
    (\<exists>msg s'. run_nccl R J A D sleep new_id from_rank sock connect coll log_info r ws ep frames s = (Stopped msg, s'))"
proof -
  have "nccl_worker_new D from_rank r ws i = Err (''init CUDA device '' @ dec r)" for i
    using assms(4) by (simp add: nccl_worker_new_def)
  then have "\<exists>msg s'. run_nccl R J A D sleep new_id from_rank sock connect coll log_info r ws ep frames s =
      (Stopped msg, s')"
    by (auto simp: run_nccl_def split: prod.splits sum.splits)
  with assms(2,3) show ?thesis by (simp add: worker_from_env_def Let_def env_uint_def)
qed

text \<open>Rank 2 on a machine with the devices 0 and 1.\<close>

definition second_machine :: cuda where
  "second_machine = \<lparr>cu_call = \<lambda>_ c. case c of NewContext i \<Rightarrow> if i < 2 then Ok () else Err ''invalid device ordinal''
     | _ \<Rightarrow> Ok (), cu_elems = \<lambda>n. (1, 1024)\<rparr>"

definition second_machine_env :: environment where
  "second_machine_env = [''TRANSPORT'' \<mapsto> ''zmq_nccl'', ''NCCL_RANK'' \<mapsto> dec 2, ''ZMQ_GATEWAY_ADDR'' \<mapsto> ''gw'',
     ''CUDA_DEVICE'' \<mapsto> dec 0]"

lemma nccl_rank_ignores_device_witness:
  "cuda_device (worker_from_env second_machine_env) = 0 \<and>
    (\<exists>msg w'. run_nccl quiet_redis ref_serde (ieee id id) second_machine (\<lambda>_ w. w) (Ok (replicate 128 7))
      (\<lambda>_ _ _. Ok ()) (Ok ()) (\<lambda>_. Ok ()) (\<lambda>_. (Ok, Ok)) False 2 4 (''tcp://'' @ ''gw'' @ '':'' @ dec 5562) []
      rendezvous_world = (Stopped msg, w'))"
proof (rule nccl_rank_ignores_device [where gpu_start = "\<lambda>_. Ok ()" and redis_open = "\<lambda>_. Ok ()"
      and redis_connect = "\<lambda>_. Ok ()" and env = second_machine_env])
  have cfg: "worker_from_env second_machine_env =
      \<lparr>transport = ''zmq_nccl'', redis_host = ''localhost'', redis_port = 6379,
       zmq_pull_endpoint = ''tcp://'' @ ''gw'' @ '':'' @ dec 5562, zmq_gateway_addr = ''gw'',
       zmq_base_port = 5560, nccl_rank = 2, nccl_world_size = 4, num_workers = 4, cuda_device = 0\<rparr>"
    by (simp add: worker_from_env_def second_machine_env_def env_or_def env_i32_def
        env_u16_def env_u32_def env_uint_def env_usize_def rank_port_def)
  show "worker_main True (\<lambda>_. Ok ()) (\<lambda>_. Ok ()) (\<lambda>_. Ok ()) second_machine_env =
      Serve (NcclRank 2 4 (''tcp://'' @ ''gw'' @ '':'' @ dec 5562))"
    unfolding worker_main_def cfg by (simp add: rank_port_def)
qed (simp_all add: second_machine_env_def second_machine_def)

end
