(* ===== verification/Pool.thy ===== *)
theory Pool
  imports Prelude "HOL-Library.Multiset" "HOL-Library.Sublist"
begin

text \<open>
  The worker's task pool, \<open>transport::zmq::run\<close> (\<open>worker-rs/src/transport/zmq.rs\<close>): a thread
  that receives frames and forwards them over an unbounded channel, a loop that takes one frame
  at a time, waits for a permit of the semaphore and spawns the task, and the tasks, which give
  their permit back when they end. A step is one atomic action of one of them. \<open>p_received\<close>,
  \<open>p_started\<close> and \<open>p_finished\<close> record the history.
\<close>

text \<open>Setting up the socket; its outcome is what \<open>run\<close> returns if it fails.\<close>

definition pull_start :: "unit result \<Rightarrow> (string \<Rightarrow> unit result) \<Rightarrow> string \<Rightarrow> unit result" where
  "pull_start sock connect endpoint =
     (case sock of
        Err e \<Rightarrow> Err (''zmq socket: '' @ e)
      | Ok _ \<Rightarrow> (case connect endpoint of
          Err e \<Rightarrow> Err (''zmq connect '' @ endpoint @ '': '' @ e)
        | Ok _ \<Rightarrow> Ok ()))"

record pool =
  p_open :: bool
  p_queue :: "bytes list"
  p_held :: "bytes option"
  p_permits :: nat
  p_running :: "bytes list"
  p_returned :: bool
  p_received :: "bytes list"
  p_started :: "bytes list"
  p_finished :: "bytes list"

definition pool_init :: "nat \<Rightarrow> pool" where
  "pool_init max_concurrent =
     \<lparr>p_open = True, p_queue = [], p_held = None, p_permits = max_concurrent, p_running = [],
      p_returned = False, p_received = [], p_started = [], p_finished = []\<rparr>"

datatype pool_event =
    Receive bytes  \<comment> \<open>the thread receives a frame and sends it to the loop\<close>
  | ReceiveError  \<comment> \<open>the thread ends and closes the channel\<close>
  | Take  \<comment> \<open>the loop's \<open>rx.recv()\<close>\<close>
  | Spawn  \<comment> \<open>\<open>acquire_owned\<close> succeeds and the task starts\<close>
  | Finish nat  \<comment> \<open>a running task ends\<close>
  | Return  \<comment> \<open>the loop sees the closed channel\<close>

fun pool_step :: "pool \<Rightarrow> pool_event \<Rightarrow> pool option" where
  "pool_step P (Receive d) =
     (if p_open P then Some (P\<lparr>p_queue := p_queue P @ [d], p_received := p_received P @ [d]\<rparr>)
      else None)"
| "pool_step P ReceiveError = (if p_open P then Some (P\<lparr>p_open := False\<rparr>) else None)"
| "pool_step P Take =
     (case (p_held P, p_queue P) of
        (None, d # q) \<Rightarrow> Some (P\<lparr>p_queue := q, p_held := Some d\<rparr>)
      | _ \<Rightarrow> None)"
| "pool_step P Spawn =
     (case p_held P of
        Some d \<Rightarrow>
          if 0 < p_permits P
          then Some (P\<lparr>p_held := None, p_permits := p_permits P - 1,
            p_running := p_running P @ [d], p_started := p_started P @ [d]\<rparr>)
          else None
      | None \<Rightarrow> None)"
| "pool_step P (Finish i) =
     (if i < length (p_running P)
      then Some (P\<lparr>p_permits := p_permits P + 1,
        p_running := take i (p_running P) @ drop (Suc i) (p_running P),
        p_finished := p_finished P @ [p_running P ! i]\<rparr>)
      else None)"
| "pool_step P Return =
     (if \<not> p_open P \<and> p_queue P = [] \<and> p_held P = None then Some (P\<lparr>p_returned := True\<rparr>) else None)"

inductive pool_reach :: "nat \<Rightarrow> pool \<Rightarrow> bool" for max_concurrent where
  start: "pool_reach max_concurrent (pool_init max_concurrent)"
| step: "pool_reach max_concurrent P \<Longrightarrow> pool_step P ev = Some P' \<Longrightarrow> pool_reach max_concurrent P'"

inductive_cases pool_reachE: "pool_reach n P"

text \<open>
  Permits are conserved; every frame is queued, held, running or finished, once; tasks start in
  the order in which their frames arrived.
\<close>

definition pool_inv :: "nat \<Rightarrow> pool \<Rightarrow> bool" where
  "pool_inv n P \<longleftrightarrow>
     p_permits P + length (p_running P) = n \<and>
     p_received P = p_started P @ (case p_held P of None \<Rightarrow> [] | Some d \<Rightarrow> [d]) @ p_queue P \<and>
     mset (p_started P) = mset (p_running P) + mset (p_finished P)"

lemma mset_take_drop: "i < length xs \<Longrightarrow> mset xs = mset (take i xs @ drop (Suc i) xs) + {#xs ! i#}"
  by (subst id_take_nth_drop [of i xs]) simp_all

lemma pool_inv_step: "pool_inv n P \<Longrightarrow> pool_step P ev = Some P' \<Longrightarrow> pool_inv n P'"
proof (cases ev)
  case (Finish i)
  assume "pool_inv n P" "pool_step P ev = Some P'"
  with Finish show ?thesis
    using mset_take_drop [of i "p_running P"] by (auto simp: pool_inv_def split: if_splits)
qed (auto simp: pool_inv_def split: if_splits option.splits list.splits)

lemma pool_reach_inv: "pool_reach n P \<Longrightarrow> pool_inv n P"
proof (induction rule: pool_reach.induct)
  case start
  then show ?case by (simp add: pool_inv_def pool_init_def)
next
  case (step P ev P')
  then show ?case by (blast intro: pool_inv_step)
qed

text \<open>The loop returns only after it has started every frame it was sent.\<close>

lemma pool_returned: "pool_reach n P \<Longrightarrow>
  p_returned P \<longrightarrow> \<not> p_open P \<and> p_queue P = [] \<and> p_held P = None"
proof (induction rule: pool_reach.induct)
  case start
  then show ?case by (simp add: pool_init_def)
next
  case (step P ev P')
  then show ?case by (cases ev) (auto split: if_splits option.splits list.splits)
qed

text \<open>While a permit is free or a task runs, the loop is never stuck.\<close>

lemma pool_progress:
  assumes "pool_reach n P" "0 < n" "p_held P \<noteq> None \<or> p_queue P \<noteq> []"
  shows "\<exists>ev P'. ev \<in> {Take, Spawn, Finish 0} \<and> pool_step P ev = Some P'"
proof -
  have inv: "p_permits P + length (p_running P) = n"
    using pool_reach_inv [OF assms(1)] by (simp add: pool_inv_def)
  show ?thesis
  proof (cases "p_held P")
    case None
    with assms(3) obtain d q where "p_queue P = d # q" by (cases "p_queue P") auto
    with None show ?thesis by (intro exI [of _ Take]) simp
  next
    case (Some d)
    then show ?thesis
    proof (cases "0 < p_permits P")
      case False
      with inv assms(2) have "0 < length (p_running P)" by simp
      then show ?thesis by (intro exI [of _ "Finish 0"]) simp
    qed (intro exI [of _ Spawn], simp)
  qed
qed

lemma pool_reach_no_permit: "pool_reach n P \<Longrightarrow> n = 0 \<Longrightarrow> p_started P = []"
proof (induction rule: pool_reach.induct)
  case start
  then show ?case by (simp add: pool_init_def)
next
  case (step P ev P')
  moreover have "p_permits P = 0"
    using pool_reach_inv [OF step.hyps(1)] step.prems by (simp add: pool_inv_def)
  ultimately show ?case by (cases ev) (auto split: if_splits option.splits list.splits)
qed

section \<open>Properties\<close>

text \<open>
  C10: the worker never runs more tasks at once than it was configured for, starts them in the
  order in which their frames arrived, loses and repeats none, and returns only when every frame
  it received has been started.
\<close>

theorem pool_safe:
  assumes "pool_reach n P"
  shows "length (p_running P) \<le> n \<and> prefix (p_started P) (p_received P) \<and>
    mset (p_started P) = mset (p_running P) + mset (p_finished P) \<and>
    (p_returned P \<longrightarrow> p_started P = p_received P)"
  using pool_reach_inv [OF assms] pool_returned [OF assms]
  by (auto simp: pool_inv_def prefix_def)

text \<open>
  C28: with at least one permit the loop is never stuck: as long as a frame waits, it can be taken
  or started, or a running task can end. With none (\<open>NUM_WORKERS=0\<close>) no task is ever started.
\<close>

theorem pool_live:
  assumes "pool_reach n P"
  shows "(0 < n \<and> (p_held P \<noteq> None \<or> p_queue P \<noteq> []) \<longrightarrow>
      (\<exists>ev \<in> {Take, Spawn, Finish 0}. pool_step P ev \<noteq> None)) \<and>
    (n = 0 \<longrightarrow> p_started P = [])"
proof -
  have "p_started P = []" if "n = 0"
    using pool_reach_no_permit [OF assms that] .
  then show ?thesis using pool_progress [OF assms] by fastforce
qed

text \<open>One frame, received, taken and started with the only permit there is.\<close>

definition pool_demo :: pool where
  "pool_demo =
     \<lparr>p_open = True, p_queue = [], p_held = None, p_permits = 0, p_running = [[7]],
      p_returned = False, p_received = [[7]], p_started = [[7]], p_finished = []\<rparr>"

text \<open>The same frame before it was taken.\<close>

definition pool_waiting :: pool where
  "pool_waiting = (pool_init 1)\<lparr>p_queue := [[7]], p_received := [[7]]\<rparr>"

lemma pool_waiting_reach: "pool_reach 1 pool_waiting"
  unfolding pool_waiting_def
  by (rule pool_reach.step [OF pool_reach.start, of _ "Receive [7]"]) (simp add: pool_init_def)

lemma pool_demo_reach: "pool_reach 1 pool_demo"
proof -
  let ?s2 = "pool_waiting\<lparr>p_queue := [], p_held := Some [7]\<rparr>"
  have "pool_reach 1 ?s2"
    by (rule pool_reach.step [OF pool_waiting_reach, of Take]) (simp add: pool_waiting_def pool_init_def)
  then show ?thesis
    by (rule pool_reach.step [of _ _ Spawn]) (simp add: pool_waiting_def pool_init_def pool_demo_def)
qed

lemma pool_safe_witness:
  "length (p_running pool_demo) \<le> 1 \<and> prefix (p_started pool_demo) (p_received pool_demo) \<and>
    mset (p_started pool_demo) = mset (p_running pool_demo) + mset (p_finished pool_demo)"
  using pool_safe [OF pool_demo_reach] by blast

lemma pool_live_witness:
  "(\<exists>ev \<in> {Take, Spawn, Finish 0}. pool_step pool_waiting ev \<noteq> None) \<and> p_started (pool_init 0) = []"
  using pool_live [OF pool_waiting_reach] pool_live [OF pool_reach.start [of 0]]
  by (simp add: pool_waiting_def)

end
