(* ===== verification/Spec2Isabelle.thy ===== *)
theory Spec2Isabelle
  imports Deployment Startup Pool
begin

text \<open>
  A model of the distributed softmax of this repository: the gateway (\<open>gateway-rs\<close>), the worker
  (\<open>worker-rs\<close>) and their CUDA kernels, with the theorems that make them correct.

  \<^bold>\<open>The program.\<close> A client sends a vector to the gateway over gRPC (\<open>SubmitTask\<close>). The gateway
  cuts it into slices, stores the job's metadata in Redis and publishes one JSON message per slice:
  on one ZeroMQ socket shared by all workers (\<open>TRANSPORT=zmq\<close>), or on one socket per GPU rank
  (\<open>zmq_nccl\<close>). A worker turns its slice into the local maximum, the sum of the exponentials and
  the exponentials themselves (mode \<open>zmq\<close>), or into its share of the final result with two
  collectives over all ranks (mode \<open>zmq_nccl\<close>); it stores the bytes in Redis and announces them on
  a channel. The gateway collects the slices, woken by the announcements and by a timer, combines
  them, stores the text of the result and replies. \<open>GetResult\<close> reads the store later.

  \<^bold>\<open>Where things are.\<close> The theories follow the source files, and the definitions keep the names of
  the functions they translate.

  \<^item> \<open>Prelude\<close>: machine integers, results, decimal text, list lemmas.
  \<^item> \<open>Ieee\<close>, \<open>Rounding\<close>, \<open>Arith\<close>: \<open>f32\<close> and \<open>f64\<close> on bit patterns, rounding against the
    reals, and the record of operations the numeric code is written with. Each numeric routine is
    translated once over that record and read twice: with \<open>ieee\<close>, bit by bit, and with \<open>exact\<close>.
  \<^item> \<open>Softmax\<close>: \<open>softmax_partial\<close> (\<open>worker-rs/src/softmax.rs\<close>), \<open>aggregate_softmax_cpu\<close>
    (\<open>gateway-rs/src/aggregator.rs\<close>). \<open>Bounds\<close>: the range of their values with rounding.
    \<open>Reading\<close>: what becomes of a value that is printed, read back with best-effort precision and
    narrowed.
  \<^item> \<open>Gpu\<close>: the kernels of both programs and the host code of \<open>gpu_worker.rs\<close> and
    \<open>gpu_aggregator.rs\<close>, every call to the driver being one that may fail.
  \<^item> \<open>Json\<close>, \<open>Wire\<close>: JSON values and serde's conversions; the bytes of a slice (\<open>encode_partial\<close>,
    \<open>encode_normalized\<close> of \<open>handler.rs\<close>, the decoding in \<open>read_slice\<close> of \<open>aggregator.rs\<close>).
  \<^item> \<open>Config\<close>: the environment variables of both programs, keys and expiry times
    (\<open>config.rs\<close>, both \<open>main.rs\<close>). \<open>Redis\<close>: \<open>redis_manager.rs\<close> and \<open>cache_manager.rs\<close>.
  \<^item> \<open>Publisher\<close>, \<open>Dispatch\<close>: \<open>publisher/zmq.rs\<close>, and concurrent requests at one publisher.
  \<^item> \<open>Notifier\<close>, \<open>Runtime\<close>, \<open>Collect\<close>, \<open>Aggregator\<close>: \<open>slice_notifier.rs\<close>, the clocks and shared
    tables of the process, and \<open>aggregator.rs\<close>.
  \<^item> \<open>Service\<close>: \<open>submit_task\<close>, \<open>get_result\<close> (\<open>service.rs\<close>) and the gateway's \<open>main\<close>.
  \<^item> \<open>Worker\<close>: \<open>handler.rs\<close>, the rendezvous of \<open>gpu_worker.rs\<close>, \<open>run_nccl\<close> and \<open>main\<close> of the
    worker. \<open>Pool\<close>: its receive loop and semaphore (\<open>transport/zmq.rs\<close>).
  \<^item> \<open>System\<close>, \<open>Gateway_Spec\<close>, \<open>Startup\<close> and this theory: properties that span components.
    \<open>Deployment\<close>: the gateway with its workers, over the contract \<open>worker_site\<close>. \<open>Ref_Redis\<close>, \<open>Ref_Serde\<close>, \<open>Quiet\<close>, \<open>Demo\<close>: instances of the interfaces and runs
    on them.

  \<^bold>\<open>State and interfaces.\<close> A handler takes the whole outside world as a state \<open>'s\<close> and returns the
  world after it. It reaches the world only through records of operations (\<open>redis\<close>, \<open>runtime\<close>,
  \<open>zmq\<close>, \<open>cuda\<close>, \<open>serde\<close>), whose contracts are locales: \<open>redis_server\<close> (a command is atomic, and
  what other processes do before the caller runs again is any step of a relation \<open>rely\<close>),
  \<open>serde_codec\<close> (the JSON text of a value reads back as the value, but for a map \<open>rt\<close> on floats),
  \<open>accurate_codec\<close> (\<open>rt\<close> is off by at most one part in \<open>2 ^ 30\<close>, far more than serde\_json's default
  best-effort parser), \<open>gateway_runtime\<close> and \<open>clocked_runtime\<close> (the clock does not run backwards, and
  has moved on when a timed wait returns), \<open>worker_site\<close> (Redis and the queue answer, and workers
  handle every message within a given time), \<open>publisher_contract\<close>, \<open>exclusive_bus\<close>, \<open>fixed_codec\<close>.
  Each is interpreted: the publishers and the codecs of the model by the code's own definitions, the
  contracts of foreign software by instances (\<open>Ref_Redis\<close>, \<open>Ref_Serde\<close>, the \<open>site\<close> of \<open>Deployment\<close>,
  in which the model's worker acts). The properties are stated over the contracts; only the two that
  exhibit a fault on a store of one's own, \<open>reused_job_same_reply\<close> and \<open>stale_rendezvous_splits\<close>, are
  stated of the instance \<open>ref_redis\<close>.

  \<^bold>\<open>What is shown.\<close>

  \<^item> The whole system: when workers handle the messages in time, a request is answered with the
    aggregation of what they compute, every value between 0 and 1 (\<open>deployment_serves\<close>); a reply is,
    to the bit, the aggregation of the stored slices while other processes use the store
    (\<open>submit_task_reply\<close>, \<open>nccl_reply_bit_exact\<close>).
  \<^item> The numbers: in exact arithmetic every combination of CPU and GPU gives the softmax
    (\<open>distributed_softmax\<close>, \<open>nccl_distributed_softmax\<close>, \<open>gpu_aggregate_per_slice\<close>,
    \<open>cpu_aggregate_distribution\<close>), although the statistics of a GPU worker are those of a CPU worker
    only where its padding does not win (\<open>gpu_worker_matches_cpu\<close>); with rounding, every value is between
    0 and 1 (\<open>cpu_softmax_in_unit_interval\<close>).
  \<^item> The formats: round trips of slices and metadata, truncated slices, keys.
  \<^item> The gateway: slicing, waiting and its end, what \<open>GetResult\<close> says, refused requests, the routing
    of messages from any number of concurrent requests, the start-up.
  \<^item> The worker: what it stores and leaves alone, its pool of tasks, the rendezvous of the ranks.
  \<^item> Faults that the code has, as theorems about it: \<open>zero_ttl_never_replies\<close>,
    \<open>nonfinite_slice_rejected\<close>, \<open>nccl_order_race\<close>, \<open>reused_job_same_reply\<close>,
    \<open>stale_rendezvous_splits\<close>, \<open>nccl_rank_ignores_device\<close>, \<open>log_line_panic\<close>,
    \<open>huge_num_slices_panics\<close>, and the collision in \<open>keys_do_not_collide\<close>.

  \<^bold>\<open>Loops and bounds.\<close> \<open>wait_loop\<close> is a \<open>partial_function\<close>, with \<open>None\<close> for a run that never returns;
  \<open>wait_ends\<close> shows that it always returns. The polls of the rendezvous count down from 200, as in
  the code. Loops that run as long as the process does (the socket threads, the subscriber, the
  NCCL loop, the cache manager) take the list of what they are given, or a number of rounds. The
  task pool is a step relation. Machine integers are words, or numbers with the wrap-around of a
  release build written out; \<open>u32\<close> launch parameters bound the vectors of the GPU theorems by \<open>2^31\<close>.

  \<^bold>\<open>Not modelled.\<close> Redis, ZeroMQ, CUDA, NCCL, serde's text format, tokio and tonic are not under
  \<open>src/\<close>: they are parameters, and only the documented behaviour the code relies on is assumed of
  them. \<open>exp\<close> is a parameter, since neither Rust nor CUDA fixes its rounding. A bounded channel that
  is full makes its sender wait; the model keeps the order of what is sent and leaves the waiting
  out. GPU kernels are in the lockstep their barriers impose. The Rust code that remains is module
  lists, the build script and the set-up of logging, which change no state; where a log line can
  panic it is modelled. The older C++ server under \<open>server/\<close>, the generated gRPC bindings,
  container files and benchmark reports are not part of the Rust programs.
\<close>

section \<open>The distributed softmax is the softmax\<close>

text \<open>A device that is absent, or works.\<close>

definition sound_gpu :: "cuda option \<Rightarrow> bool" where
  "sound_gpu gpu = (case gpu of None \<Rightarrow> True | Some D \<Rightarrow> healthy D)"

definition sound_gateway_gpu :: "cuda option \<Rightarrow> nat \<Rightarrow> bool" where
  "sound_gateway_gpu gpu n = (case gpu of None \<Rightarrow> True | Some D \<Rightarrow> healthy D \<and> covers D n)"

text \<open>\<open>p\<close> is what some worker, with or without a GPU, computes for the slice \<open>xs\<close>.\<close>

definition worker_stats :: "real list \<Rightarrow> (xr, xr) partial_stats \<Rightarrow> bool" where
  "worker_stats xs p \<longleftrightarrow> xs \<noteq> [] \<and> length xs < 2 ^ 31 \<and>
     (\<exists>gpu. sound_gpu gpu \<and> compute_partial exact gpu (map XR xs) = Ok p)"

lemma worker_stats_at:
  assumes "worker_stats xs p"
  shows "\<exists>m. slice_of_partial exact p = stats_at m xs"
proof -
  obtain gpu where g: "sound_gpu gpu" "compute_partial exact gpu (map XR xs) = Ok p"
    and xs: "xs \<noteq> []" "length xs < 2 ^ 31"
    using assms by (auto simp: worker_stats_def)
  show ?thesis
  proof (cases gpu)
    case None
    with g(2) slice_of_partial_exact [OF xs(1)] show ?thesis by (auto simp: compute_partial_def)
  next
    case (Some D)
    with g(1) have "healthy D" by (simp add: sound_gpu_def)
    from gpu_partial_softmax_exact [OF this xs] Some g(2) show ?thesis
      by (auto simp: compute_partial_def exact_simps)
  qed
qed

lemma workers_stats_at:
  assumes "list_all2 worker_stats slices ps"
  shows "\<exists>ys. map (slice_of_partial exact) ps = map (\<lambda>(m, xs). stats_at m xs) ys \<and> map snd ys = slices"
  using assms
proof (induction rule: list_all2_induct)
  case (Cons xs slices p ps)
  then obtain ys where "map (slice_of_partial exact) ps = map (\<lambda>(m, xs). stats_at m xs) ys" "map snd ys = slices"
    by blast
  moreover obtain m where "slice_of_partial exact p = stats_at m xs"
    using worker_stats_at Cons by blast
  ultimately show ?case by (intro exI [of _ "(m, xs) # ys"]) simp
qed simp

text \<open>
  C2: in exact arithmetic the two programs together compute the softmax of the whole vector:
  however the vector is cut into non-empty slices, whichever of the workers compute theirs on a
  GPU and whether or not the gateway aggregates on one, the values it stores are
  \<open>exp x / (sum of all exp)\<close> for every entry, in order.
\<close>

theorem distributed_softmax:
  assumes "list_all2 worker_stats slices ps" "slices \<noteq> []"
    and "sound_gateway_gpu gpu (length (concat slices))"
    and "length slices < 2 ^ 31" "length (concat slices) < 2 ^ 31"
  shows "aggregate_values exact gpu (map (slice_of_partial exact) ps) =
    Ok (map XR (softmax (concat slices)))"
proof -
  obtain ys where ys: "map (slice_of_partial exact) ps = map (\<lambda>(m, xs). stats_at m xs) ys"
      "map snd ys = slices"
    using workers_stats_at [OF assms(1)] by blast
  have ne: "concat (map snd ys) \<noteq> []"
    using assms(1,2) ys(2) by (cases slices) (auto simp: list_all2_Cons1 worker_stats_def)
  have flag: "\<not> (case map (\<lambda>(m, xs). stats_at m xs) ys of [] \<Rightarrow> False | s # _ \<Rightarrow> ss_is_normalized s)"
    by (cases ys) (auto simp: stats_at_def)
  have len: "length ys < 2 ^ 31" using assms(4) ys(2) by auto
  show ?thesis
  proof (cases gpu)
    case None
    then show ?thesis
      unfolding ys(1) aggregate_values_def using flag aggregate_stats_at [OF ne] ys(2) by simp
  next
    case (Some D)
    then have "gpu_aggregate exact D (map (\<lambda>(m, xs). stats_at m xs) ys) = Ok (map XR (softmax (concat (map snd ys))))"
      using assms(3,5) ne len ys(2) by (intro gpu_aggregate_exact) (simp_all add: sound_gateway_gpu_def)
    with Some show ?thesis
      unfolding ys(1) aggregate_values_def using flag ys(2) by (simp add: exact_simps)
  qed
qed

lemma distributed_softmax_witness:
  "aggregate_values exact None (map (slice_of_partial exact)
      [softmax_partial exact [XR 1, XR 2], softmax_partial exact [XR (- 3)]]) =
    Ok (map XR (softmax [1, 2, - 3]))"
proof -
  have cpu: "worker_stats xs (softmax_partial exact (map XR xs))" if "xs \<noteq> []" "length xs < 2 ^ 31" for xs
    using that by (auto simp: worker_stats_def sound_gpu_def compute_partial_def intro!: exI [of _ None])
  have "list_all2 worker_stats [[1, 2], [- 3]]
      [softmax_partial exact [XR 1, XR 2], softmax_partial exact [XR (- 3)]]"
    using cpu [of "[1, 2]"] cpu [of "[- 3]"] by simp
  from distributed_softmax [OF this, of None] show ?thesis by (simp add: sound_gateway_gpu_def)
qed

section \<open>NCCL mode\<close>

text \<open>What the gateway holds for the probabilities of a rank.\<close>

definition normalized_slice :: "('d, 's) arith \<Rightarrow> 's list \<Rightarrow> 'd slice_stats" where
  "normalized_slice A probs =
     \<lparr>ss_exp_values = map (widen A) probs, ss_local_max = d_zero A, ss_partial_sum = d_one A,
      ss_is_normalized = True\<rparr>"

text \<open>What the collectives return on every rank: the reduction of all contributions.\<close>

definition all_max_of :: "real list list \<Rightarrow> xr" where
  "all_max_of slices = s_maximum exact (map (\<lambda>xs. nccl_local_max exact (map XR xs)) slices)"

definition all_sum_of :: "xr \<Rightarrow> real list list \<Rightarrow> xr" where
  "all_sum_of gmax slices = s_sum exact (map (\<lambda>xs. nccl_local_sum exact gmax (map XR xs)) slices)"

lemma all_max_of_exact:
  assumes "slices \<noteq> []" "\<forall>xs \<in> set slices. xs \<noteq> [] \<and> length xs < 2 ^ 31"
  shows "\<exists>g. all_max_of slices = XR g"
proof -
  have "map (\<lambda>xs. nccl_local_max exact (map XR xs)) slices = map XR (map padded_max slices)"
    using assms(2) by (simp add: nccl_local_max_exact)
  then show ?thesis
    using assms(1) by (auto simp add: all_max_of_def s_maximum_exact simp del: map_map)
qed

lemma all_sum_of_exact:
  assumes "\<forall>xs \<in> set slices. length xs < 2 ^ 31"
  shows "all_sum_of (XR g) slices = XR (\<Sum>x\<leftarrow>concat slices. exp (x - g))"
proof -
  have "map (\<lambda>xs. nccl_local_sum exact (XR g) (map XR xs)) slices =
      map XR (map (\<lambda>xs. \<Sum>x\<leftarrow>xs. exp (x - g)) slices)"
    using assms by (simp add: nccl_local_sum_exact)
  then show ?thesis
    by (simp only: all_sum_of_def s_sum_exact) (simp add: sum_list_concat_map)
qed

text \<open>
  C5: in exact arithmetic, on devices without faults, with collectives that return the maximum and
  the sum over all ranks: every rank's \<open>all_reduce_softmax\<close> succeeds, and what the gateway's
  aggregation makes of the ranks' outputs, in their order, is the softmax of the whole vector.
\<close>

theorem nccl_distributed_softmax:
  assumes "slices \<noteq> []" "\<forall>xs \<in> set slices. xs \<noteq> [] \<and> length xs < 2 ^ 31"
    and "\<forall>k < length slices. healthy (dev k)"
    and "\<forall>k < length slices. all_max k (nccl_local_max exact (map XR (slices ! k))) = Ok (all_max_of slices)"
    and "\<forall>k < length slices. all_sum k (nccl_local_sum exact (all_max_of slices) (map XR (slices ! k))) =
      Ok (all_sum_of (all_max_of slices) slices)"
  shows "\<exists>outs. length outs = length slices \<and>
    (\<forall>k < length slices. all_reduce_softmax exact (dev k) (all_max k) (all_sum k) (map XR (slices ! k)) =
      Ok (outs ! k)) \<and>
    aggregate_values exact gpu (map (normalized_slice exact) outs) = Ok (map XR (softmax (concat slices)))"
proof -
  obtain g where g: "all_max_of slices = XR g" using all_max_of_exact [OF assms(1,2)] by blast
  define S where "S = (\<Sum>x\<leftarrow>concat slices. exp (x - g))"
  have sum: "all_sum_of (XR g) slices = XR S"
    unfolding S_def using assms(2) by (intro all_sum_of_exact) blast
  have ne: "concat slices \<noteq> []" using assms(1,2) by (cases slices) auto
  have S: "S \<noteq> 0"
    using sum_exp_pos [of "map (\<lambda>x. x - g) (concat slices)"] ne by (simp add: S_def comp_def)
  let ?out = "\<lambda>xs. map (\<lambda>x. XR (exp (x - g) / S)) xs"
  have rank: "all_reduce_softmax exact (dev k) (all_max k) (all_sum k) (map XR (slices ! k)) =
      Ok (?out (slices ! k))" if k: "k < length slices" for k
  proof -
    have xs: "slices ! k \<noteq> []" "length (slices ! k) < 2 ^ 31" using assms(2) k by auto
    have "all_max k (nccl_local_max exact (map XR (slices ! k))) = Ok (XR g)"
      using assms(4) k by (simp add: g)
    moreover have "all_sum k (nccl_local_sum exact (XR g) (map XR (slices ! k))) = Ok (XR S)"
      using assms(5) k by (simp add: g sum)
    ultimately show ?thesis
      unfolding nccl_local_max_exact [OF xs] nccl_local_sum_exact [OF xs(2)]
      using assms(3) k by (intro all_reduce_softmax_exact [OF _ xs _ _ S]) simp_all
  qed
  have "concat (map (ss_exp_values \<circ> normalized_slice exact \<circ> ?out) slices) =
      map XR (map (\<lambda>x. exp (x - g) / S) (concat slices))"
    by (simp add: normalized_slice_def exact_simps map_concat comp_def)
  also have "map (\<lambda>x. exp (x - g) / S) (concat slices) = softmax (concat slices)"
    unfolding S_def by (rule softmax_shift)
  finally have "aggregate_values exact gpu (map (normalized_slice exact) (map ?out slices)) =
      Ok (map XR (softmax (concat slices)))"
    using assms(1) by (cases slices) (simp_all add: aggregate_values_def normalized_slice_def comp_def)
  then show ?thesis using rank by (intro exI [of _ "map ?out slices"]) simp
qed

lemma nccl_distributed_softmax_witness:
  "\<exists>outs. length outs = length [[1], [2 :: real]] \<and>
    (\<forall>k < length [[1], [2 :: real]].
      all_reduce_softmax exact \<lparr>cu_call = \<lambda>_ _. Ok (), cu_elems = \<lambda>n. (1, 1024)\<rparr>
        (\<lambda>_. Ok (all_max_of [[1], [2]])) (\<lambda>_. Ok (all_sum_of (all_max_of [[1], [2]]) [[1], [2]]))
        (map XR ([[1], [2]] ! k)) = Ok (outs ! k)) \<and>
    aggregate_values exact None (map (normalized_slice exact) outs) =
      Ok (map XR (softmax (concat [[1], [2]])))"
  by (rule nccl_distributed_softmax [where dev = "\<lambda>_. \<lparr>cu_call = \<lambda>_ _. Ok (), cu_elems = \<lambda>n. (1, 1024)\<rparr>"
        and all_max = "\<lambda>_ _. Ok (all_max_of [[1], [2]])"
        and all_sum = "\<lambda>_ _. Ok (all_sum_of (all_max_of [[1], [2]]) [[1], [2]])"])
    (simp_all add: healthy_def)

section \<open>SubmitTask\<close>



text \<open>
  C14: in NCCL mode nothing is lost on the way from the ranks to the client: if under the job's
  slice keys are the probabilities its ranks stored, a reply is their concatenation in the order of
  the ranks, bit for bit, and each of them is finite. The JSON text in between need not be read
  exactly: an error of one part in \<open>2 ^ 30\<close> per value, far above that of serde\_json's default
  parser, is undone by the rounding to single precision.
\<close>

theorem nccl_reply_bit_exact:
  assumes "gateway_runtime (g_redis G) view rely (g_runtime G)" "accurate_codec (g_serde G) fl"
    and "g_endian G = LE" "g_arith G = ieee exp64 exp32"
    and "make_slices (g_env G) (g_nccl_dispatch G) (g_world_size G)
      (map f64_of_f32 (tr_vector req)) = Reply slices"
    and "stable rely (slices_of_job (tr_job_id req) (length slices) (\<lambda>i. Normalized (probs i)))"
    and "\<forall>i < length slices. length (probs i) < 2 ^ 32"
    and "slices_of_job (tr_job_id req) (length slices) (\<lambda>i. Normalized (probs i)) (view s)"
    and "submit_task G req s = Some (Reply resp, s')" "0 < length slices"
  shows "resp = \<lparr>ts_message = ''OK'', ts_result = concat (map probs [0..<length slices])\<rparr> \<and>
    list_all (\<lambda>x. finite_fp (f32_cls x)) (ts_result resp)"
proof -
  let ?A = "ieee exp64 exp32" and ?ps = "\<lambda>i. Normalized (probs i)"
  let ?out = "concat (map probs [0..<length slices])"
  note J = accurate_codec.axioms(1) [OF assms(2)]
  have A: "widen ?A = f64_of_f32" by (simp add: ieee_def)
  have small: "\<forall>i < length slices. payload_length (?ps i) < 2 ^ 32" using assms(7) by simp
  from submit_task_replied [OF assms(1) J assms(3-6) small assms(8,9)] obtain vals where
    vals: "aggregate_values ?A (g_gpu G) (collected ?A ?ps (length slices)) = Ok vals"
      "list_all (\<lambda>x. finite_fp (f64_cls x)) vals"
      "resp = \<lparr>ts_message = ''OK'', ts_result = map (\<lambda>x. f32_of_f64 (fl x)) vals\<rparr>" by blast
  have "[0..<length slices] = 0 # [Suc 0..<length slices]" using assms(10) by (rule upt_conv_Cons)
  then have out: "vals = map f64_of_f32 ?out"
    using vals(1) by (auto simp: aggregate_values_def collected_def A comp_def map_concat)
  then have fin: "list_all (\<lambda>x. finite_fp (f32_cls x)) ?out"
    using vals(2) unfolding out list_all_iff set_map by (simp add: finite_widen_iff)
  have "f32_of_f64 (fl (f64_of_f32 x)) = x" if "x \<in> set ?out" for x
  proof (rule narrow_close)
    show "finite_fp (f32_cls x)" using fin that unfolding list_all_iff by blast
    then show "close_reading (f64_of_f32 x) (fl (f64_of_f32 x))"
      using accurate_codec.rt_close [OF assms(2)] finite_widen by blast
  qed
  then have "map (\<lambda>x. f32_of_f64 (fl x)) vals = ?out"
    unfolding out map_map by (intro map_idI) (simp only: o_def)
  with vals(3) fin show ?thesis by simp
qed

lemma nccl_reply_bit_exact_witness:
  "\<exists>resp s'. submit_task demo_gateway demo_request demo_world = Some (Reply resp, s') \<and>
    resp = \<lparr>ts_message = ''OK'', ts_result = concat (map (\<lambda>_. [demo_prob]) [0..<length [[f64_of_f32 demo_prob]]])\<rparr> \<and>
    list_all (\<lambda>x. finite_fp (f32_cls x)) (ts_result resp)"
proof -
  obtain resp s' where run: "submit_task demo_gateway demo_request demo_world = Some (Reply resp, s')"
    using demo_run by blast
  have "gateway_runtime (g_redis demo_gateway) live (=) (g_runtime demo_gateway)"
    using quiet.gateway_runtime_axioms by (simp add: demo_gateway_def)
  moreover have "accurate_codec (g_serde demo_gateway) (\<lambda>x. x)"
    using ref_serde.accurate_codec_axioms by (simp add: demo_gateway_def)
  ultimately have "resp = \<lparr>ts_message = ''OK'',
      ts_result = concat (map (\<lambda>_. [demo_prob]) [0..<length [[f64_of_f32 demo_prob]]])\<rparr> \<and>
    list_all (\<lambda>x. finite_fp (f32_cls x)) (ts_result resp)"
  proof (rule nccl_reply_bit_exact [OF _ _ _ _ demo_slices _ _ _ run])
    show "slices_of_job (tr_job_id demo_request) (length [[f64_of_f32 demo_prob]])
        (\<lambda>i. Normalized [demo_prob]) (live demo_world)"
      by (simp add: slices_of_job_def demo_live demo_request_def demo_slice_def)
  qed (simp_all add: demo_gateway_def stable_def)
  with run show ?thesis by blast
qed

section \<open>The worker\<close>

text \<open>
  C6: a worker that gets the gateway's message for a slice of finite entries stores the encoding
  of what it computes for that slice under exactly the key the gateway reads, and only then reports
  success; whatever it reports, it writes no other key.
\<close>

theorem worker_stores_slice:
  assumes "redis_server R view rely" "serde_codec J fl" "utf8_string job" "k < 2 ^ 64"
    and "list_all (\<lambda>x. finite_fp (f64_cls x)) data" "data \<noteq> []"
    and "compute_partial A gpu (map fl data) = Ok p"
    and "handle_task R J A gpu log_info (as_bytes (to_text J (task_json job k ''softmax'' data))) s = (r, s')"
  shows "(r \<in> {Done, Panicked} \<longrightarrow> rely ((view s)(slice_key job k \<mapsto> encode_partial p)) (view s')) \<and>
    (rely (view s) (view s') \<or> rely ((view s)(slice_key job k \<mapsto> encode_partial p)) (view s'))"
proof -
  let ?raw = "as_bytes (to_text J (task_json job k ''softmax'' data))"
  have "utf8_string ''softmax''" by (simp add: utf8_string_def)
  note parse = serde_codec.parse_task_text [OF assms(2,3) this assms(4,5)]
  have ready: "task_ready J A gpu ?raw \<lparr>tm_job_id = job, tm_slice_id = k, tm_task = ''softmax'',
      tm_data = map fl data\<rparr> p"
    using assms(6,7) by (simp add: task_ready_def parse)
  obtain q s1 where w: "write_result R job k (encode_partial p) s = (q, s1)"
    by (cases "write_result R job k (encode_partial p) s")
  have s': "s' = s1" and r: "r \<in> {Done, Panicked} \<longrightarrow> q = Ok ()"
    using assms(8) w by (auto simp: handle_task_ready [OF ready] split: sum.splits)
  have "rely ((view s)(slice_key job k \<mapsto> encode_partial p)) (view s')" if "q = Ok ()"
    using redis_server.write_result_ok [OF assms(1)] w that s' by blast
  moreover have "rely (view s) (view s') \<or> rely ((view s)(slice_key job k \<mapsto> encode_partial p)) (view s')"
    using redis_server.write_result_law [OF assms(1) w] redis_server.rely_trans [OF assms(1)] s'
    by (fastforce simp: wrote_def split: if_splits)
  ultimately show ?thesis using r by blast
qed

lemma worker_stores_slice_witness:
  "\<exists>r s'. handle_task quiet_redis ref_serde (ieee id id) None False
      (as_bytes (to_text ref_serde (task_json ''j'' 0 ''softmax'' [0]))) idle_world = (r, s') \<and>
    (r \<in> {Done, Panicked} \<longrightarrow>
      (live idle_world)(slice_key ''j'' 0 \<mapsto> encode_partial (softmax_partial (ieee id id) [0])) = live s') \<and>
    (live idle_world = live s' \<or>
      (live idle_world)(slice_key ''j'' 0 \<mapsto> encode_partial (softmax_partial (ieee id id) [0])) = live s')"
proof -
  obtain r s' where run: "handle_task quiet_redis ref_serde (ieee id id) None False
      (as_bytes (to_text ref_serde (task_json ''j'' 0 ''softmax'' [0]))) idle_world = (r, s')"
    by (cases "handle_task quiet_redis ref_serde (ieee id id) None False
      (as_bytes (to_text ref_serde (task_json ''j'' 0 ''softmax'' [0]))) idle_world")
  have zero: "finite_fp (f64_cls 0)"
    by (simp add: f64_cls_def decode_def b64_def inf_mag_def sign_bit_def)
  from worker_stores_slice [OF quiet.redis_server_axioms ref_serde.serde_codec_axioms _ _ _ _ _ run]
  show ?thesis using run by (simp add: zero utf8_string_def compute_partial_def)
qed

text \<open>
  C18: handling any message keeps what is known of the slices of a job, unless the message itself
  names a slice of that job and its data lead to other statistics. In particular the messages of
  other jobs, and the repeated delivery of a job's own, are harmless.
\<close>

theorem worker_keeps_other_slices:
  assumes "redis_server R view rely" "stable rely (slices_of_job job n payloads)"
    and "\<forall>msg p. task_ready J A gpu raw msg p \<longrightarrow> tm_job_id msg = job \<longrightarrow> tm_slice_id msg < n \<longrightarrow>
      payloads (tm_slice_id msg) = Partial p"
    and "slices_of_job job n payloads (view s)"
    and "handle_task R J A gpu log_info raw s = (r, s')"
  shows "slices_of_job job n payloads (view s')"
  using redis_server.handle_task_keeps_job [OF assms(1,2) _ assms(4,5)] assms(3)
  by (simp add: compatible_def)

text \<open>
  A store that holds slice 0 of the job, and a worker that is given the message of slice 1: the slice
  is stored, slice 0 stays.
\<close>

lemma worker_keeps_other_slices_witness:
  "\<exists>s'. handle_task quiet_redis ref_serde (ieee id id) None False
      (as_bytes (to_text ref_serde (task_json ''j'' 1 ''softmax'' [0]))) demo_world = (Done, s') \<and>
    live s' (slice_key ''j'' 0) = Some (payload_bytes demo_slice) \<and>
    live s' (slice_key ''j'' 1) = Some (encode_partial (softmax_partial (ieee id id) [0])) \<and>
    slices_of_job ''j'' 2 (\<lambda>i. if i = 0 then demo_slice else Partial (softmax_partial (ieee id id) [0])) (live s')"
proof -
  let ?raw = "as_bytes (to_text ref_serde (task_json ''j'' 1 ''softmax'' [0]))"
  let ?p = "softmax_partial (ieee id id) [0]"
  have "finite_fp (f64_cls 0)" by (simp add: f64_cls_def decode_def b64_def inf_mag_def sign_bit_def)
  then have parse: "parse_task ref_serde ?raw =
      Ok \<lparr>tm_job_id = ''j'', tm_slice_id = 1, tm_task = ''softmax'', tm_data = [0]\<rparr>"
    using serde_codec.parse_task_text [OF ref_serde.serde_codec_axioms, of "''j''" "''softmax''" 1 "[0]"]
    by (simp add: utf8_string_def)
  then have ready: "task_ready ref_serde (ieee id id) None ?raw
      \<lparr>tm_job_id = ''j'', tm_slice_id = 1, tm_task = ''softmax'', tm_data = [0]\<rparr> ?p"
    by (simp add: task_ready_def compute_partial_def)
  obtain s' where wrote: "write_result quiet_redis ''j'' 1 (encode_partial ?p) demo_world = (Ok (), s')"
    by (simp add: write_result_def ref_redis_def)
  have run: "handle_task quiet_redis ref_serde (ieee id id) None False ?raw demo_world = (Done, s')"
    by (simp add: handle_task_ready [OF ready] wrote del: One_nat_def)
  have "(live demo_world)(slice_key ''j'' 1 \<mapsto> encode_partial ?p) = live s'"
    using quiet.write_result_ok [OF wrote] .
  then have stored: "live s' = (live demo_world)(slice_key ''j'' 1 \<mapsto> encode_partial ?p)" by (rule sym)
  have "slices_of_job ''j'' 2 (\<lambda>i. if i = 0 then demo_slice else Partial ?p) (live s')"
  proof (rule worker_keeps_other_slices [OF quiet.redis_server_axioms _ _ _ run])
    show "\<forall>msg p. task_ready ref_serde (ieee id id) None ?raw msg p \<longrightarrow> tm_job_id msg = ''j'' \<longrightarrow>
        tm_slice_id msg < 2 \<longrightarrow> (if tm_slice_id msg = 0 then demo_slice else Partial ?p) = Partial p"
      unfolding task_ready_def parse by (auto simp: compute_partial_def)
  qed (auto simp: stable_def slices_of_job_def demo_live)
  with run show ?thesis by (simp add: stored demo_live)
qed

text \<open>
  C32: a slice with an infinite entry or one that is not a number never gets a result: in the
  message the entry is \<open>null\<close>, the worker rejects the message and stores nothing.
\<close>

theorem nonfinite_slice_rejected:
  assumes "serde_codec J fl" "utf8_string job" "utf8_string task" "k < 2 ^ 64"
    and "x \<in> set data" "\<not> finite_fp (f64_cls x)"
  shows "handle_task R J A gpu log_info (as_bytes (to_text J (task_json job k task data))) s =
    (Failed ''deserialize task message'', s)"
proof -
  have "\<not> list_all (\<lambda>x. finite_fp (f64_cls x)) data" using assms(5,6) by (auto simp: list_all_iff)
  from serde_codec.parse_task_nonfinite [OF assms(1-4) this] show ?thesis
    by (auto simp: handle_task_def)
qed

lemma nonfinite_slice_rejected_witness:
  "handle_task quiet_redis ref_serde (ieee id id) None False
      (as_bytes (to_text ref_serde (task_json ''j'' 0 ''softmax'' [0x7FF0000000000000]))) idle_world =
    (Failed ''deserialize task message'', idle_world)"
  by (rule nonfinite_slice_rejected [OF ref_serde.serde_codec_axioms, where x = "0x7FF0000000000000"])
    (simp_all add: utf8_string_def f64_cls_def decode_def b64_def inf_mag_def sign_bit_def)

text \<open>
  C39: a worker that has stored the slice of a message of the gateway, with the log level at \<open>info\<close>
  or below, panics exactly when the identifier of the job is longer than eight bytes and its first
  eight bytes are not text by themselves: the log line cuts the identifier after eight bytes, in the
  middle of a character. The slice is stored and announced all the same. With a higher log level the
  line is not formatted, and the worker goes on.
\<close>

theorem log_line_panic:
  assumes "serde_codec J fl" "utf8_string job" "k < 2 ^ 64"
    and "list_all (\<lambda>x. finite_fp (f64_cls x)) data" "data \<noteq> []"
    and "compute_partial A gpu (map fl data) = Ok p"
    and "write_result R job k (encode_partial p) s = (Ok (), s')"
  shows "handle_task R J A gpu log_info (as_bytes (to_text J (task_json job k ''softmax'' data))) s =
    (if log_info \<and> 8 < length job \<and> \<not> utf8_string (take 8 job) then Panicked else Done, s')"
proof -
  have "utf8_string ''softmax''" by (simp add: utf8_string_def)
  note parse = serde_codec.parse_task_text [OF assms(1,2) this assms(3,4)]
  have ready: "task_ready J A gpu (as_bytes (to_text J (task_json job k ''softmax'' data)))
      \<lparr>tm_job_id = job, tm_slice_id = k, tm_task = ''softmax'', tm_data = map fl data\<rparr> p"
    using assms(5,6) by (simp add: task_ready_def parse)
  have "log_prefix_ok job \<longleftrightarrow> \<not> (8 < length job \<and> \<not> utf8_string (take 8 job))"
    using utf8_cut [of "map of_char job" 8] assms(2)
    by (auto simp: log_prefix_ok_def utf8_string_def take_map)
  then show ?thesis using assms(7) by (simp add: handle_task_ready [OF ready])
qed

lemma log_line_panic_witness:
  "\<exists>s'. handle_task quiet_redis ref_serde (ieee id id) None True
      (as_bytes (to_text ref_serde (task_json
        [CHR ''a'', CHR ''b'', CHR ''c'', CHR ''d'', CHR ''e'', CHR ''f'', CHR ''g'', CHR 0xC3, CHR 0xA9]
        0 ''softmax'' [0]))) idle_world = (Panicked, s')"
proof -
  let ?job = "[CHR ''a'', CHR ''b'', CHR ''c'', CHR ''d'', CHR ''e'', CHR ''f'', CHR ''g'', CHR 0xC3, CHR 0xA9]"
  have utf8: "utf8_string ?job" "\<not> utf8_string (take 8 ?job)" by (simp_all add: utf8_string_def is_cont_def)
  have zero: "finite_fp (f64_cls 0)"
    by (simp add: f64_cls_def decode_def b64_def inf_mag_def sign_bit_def)
  obtain s' where wrote: "write_result quiet_redis ?job 0 (encode_partial (softmax_partial (ieee id id) [0])) idle_world =
      (Ok (), s')"
    by (simp add: write_result_def ref_redis_def)
  have "handle_task quiet_redis ref_serde (ieee id id) None True
      (as_bytes (to_text ref_serde (task_json ?job 0 ''softmax'' [0]))) idle_world =
    (if True \<and> 8 < length ?job \<and> \<not> utf8_string (take 8 ?job) then Panicked else Done, s')"
    by (rule log_line_panic [OF ref_serde.serde_codec_axioms utf8(1) _ _ _ _ wrote])
      (simp_all add: zero compute_partial_def)
  with utf8(2) show ?thesis by auto
qed

end
